theory Spec2Isabelle
  imports Complex_Main
begin

section \<open>JavaScript strings\<close>

text \<open>
  A JavaScript string is a sequence of UTF-16 code units. A code unit is modelled by its
  number (below 65536 for every string the program can see); a string is the list of its
  code units. ASCII literals of the source are written with \<open>js\<close>.
\<close>

type_synonym jschar = nat
type_synonym jsstring = "jschar list"

definition js :: "string \<Rightarrow> jsstring" where
  "js s = map of_char s"

text \<open>Membership in a union of inclusive code-unit ranges.\<close>

fun in_ranges :: "(nat \<times> nat) list \<Rightarrow> jschar \<Rightarrow> bool" where
  "in_ranges [] c = False"
| "in_ranges ((lo, hi) # rs) c = ((lo \<le> c \<and> c \<le> hi) \<or> in_ranges rs c)"

text \<open>
  ECMAScript WhiteSpace and LineTerminator code units: what \<^verbatim>\<open>\s\<close> matches and what
  \<^verbatim>\<open>trim()\<close> strips. Tab, LF, VT, FF, CR, space, U+00A0, U+1680, U+2000 to U+200A,
  U+2028, U+2029, U+202F, U+205F, U+3000, U+FEFF.
\<close>

definition space_ranges :: "(nat \<times> nat) list" where
  "space_ranges = [(9, 13), (32, 32), (160, 160), (5760, 5760), (8192, 8202), (8232, 8233),
     (8239, 8239), (8287, 8287), (12288, 12288), (65279, 65279)]"

definition digit_ranges :: "(nat \<times> nat) list" where
  "digit_ranges = [(48, 57)]"

text \<open>\<^verbatim>\<open>\w\<close>: digits, upper-case letters, underscore, lower-case letters.\<close>

definition word_ranges :: "(nat \<times> nat) list" where
  "word_ranges = [(48, 57), (65, 90), (95, 95), (97, 122)]"

definition isWhiteSpace :: "jschar \<Rightarrow> bool" where
  "isWhiteSpace c = in_ranges space_ranges c"

definition isLineTerminator :: "jschar \<Rightarrow> bool" where
  "isLineTerminator c = (c = 10 \<or> c = 13 \<or> c = 8232 \<or> c = 8233)"

definition isWordChar :: "jschar \<Rightarrow> bool" where
  "isWordChar c = in_ranges word_ranges c"

definition isDigit :: "jschar \<Rightarrow> bool" where
  "isDigit c = in_ranges digit_ranges c"

text \<open>\<^verbatim>\<open>String.prototype.trim\<close>.\<close>

definition trim :: "jsstring \<Rightarrow> jsstring" where
  "trim s = rev (dropWhile isWhiteSpace (rev (dropWhile isWhiteSpace s)))"

text \<open>
  Case conversion of one code unit, for the ASCII letters and the Latin-1 letters
  (U+00C0 to U+00DE and U+00E0 to U+00FE, without the multiplication and division signs).
  Every other code unit is left as it is; ECMAScript converts further letters, none of
  them to or from a character that occurs in a pattern or literal of this program.
\<close>

definition upper_unit :: "jschar \<Rightarrow> jschar" where
  "upper_unit c =
     (if (97 \<le> c \<and> c \<le> 122) \<or> (224 \<le> c \<and> c \<le> 254 \<and> c \<noteq> 247) then c - 32 else c)"

definition lower_unit :: "jschar \<Rightarrow> jschar" where
  "lower_unit c =
     (if (65 \<le> c \<and> c \<le> 90) \<or> (192 \<le> c \<and> c \<le> 222 \<and> c \<noteq> 215) then c + 32 else c)"

definition toUpperCase :: "jsstring \<Rightarrow> jsstring" where
  "toUpperCase s = map upper_unit s"

definition toLowerCase :: "jsstring \<Rightarrow> jsstring" where
  "toLowerCase s = map lower_unit s"

text \<open>\<^verbatim>\<open>s.includes(t)\<close>: \<open>t\<close> occurs in \<open>s\<close> as a contiguous substring.\<close>

fun is_prefix :: "jsstring \<Rightarrow> jsstring \<Rightarrow> bool" where
  "is_prefix [] s = True"
| "is_prefix (c # cs) [] = False"
| "is_prefix (c # cs) (d # ds) = (c = d \<and> is_prefix cs ds)"

fun js_includes :: "jsstring \<Rightarrow> jsstring \<Rightarrow> bool" where
  "js_includes [] t = (t = [])"
| "js_includes (c # cs) t = (is_prefix t (c # cs) \<or> js_includes cs t)"

text \<open>\<^verbatim>\<open>s.split(sep)\<close> for a separator of one code unit: never an empty list.\<close>

fun split_on :: "jschar \<Rightarrow> jsstring \<Rightarrow> jsstring list" where
  "split_on sep [] = [[]]"
| "split_on sep (c # cs) =
     (if c = sep then [] # split_on sep cs
      else (case split_on sep cs of
              l # ls \<Rightarrow> (c # l) # ls
            | [] \<Rightarrow> [[c]]))"

text \<open>Decimal rendering of a natural number, as a template literal renders it.\<close>

fun digits_of :: "nat \<Rightarrow> jsstring" where
  "digits_of n = (if n < 10 then [48 + n] else digits_of (n div 10) @ [48 + n mod 10])"

text \<open>Everything the modelled code can throw.\<close>

datatype error =
    TypeError
  | NotInitialized
  | DownloadError
  | PdfParseError
  | SaveError
  | ListError


section \<open>Regular expressions with ECMAScript backtracking semantics\<close>

text \<open>
  The fragment of the ECMAScript pattern language that the program's regular expression
  literals use. A character class is a union of code-unit ranges; a quantifier carries
  its minimum, its maximum (\<open>None\<close> for unbounded) and whether it is greedy.
\<close>

datatype regex =
    Chars "(nat \<times> nat) list"
  | Dot
  | Eps
  | Seq regex regex
  | Alt regex regex
  | Rep nat "nat option" bool regex
  | Group nat regex
  | Bol
  | Eol
  | WordB
  | Ahead regex

record flags =
  ignoreCase :: bool
  multiline :: bool

definition no_flags :: flags where
  "no_flags = \<lparr>ignoreCase = False, multiline = False\<rparr>"

definition flag_i :: flags where
  "flag_i = \<lparr>ignoreCase = True, multiline = False\<rparr>"

definition flag_m :: flags where
  "flag_m = \<lparr>ignoreCase = False, multiline = True\<rparr>"

text \<open>
  A class matches a code unit when one of its members has the same canonical form. With
  the \<open>i\<close> flag the canonical form is the upper-case one, so the members to test are the
  code unit itself and its two case variants.
\<close>

definition class_match :: "flags \<Rightarrow> (nat \<times> nat) list \<Rightarrow> jschar \<Rightarrow> bool" where
  "class_match f A c =
     (in_ranges A c \<or>
      (ignoreCase f \<and> (in_ranges A (upper_unit c) \<or> in_ranges A (lower_unit c))))"

text \<open>
  A matcher state: the code unit just before the current position (\<open>None\<close> at the start
  of the input), the input from the current position on, and the captures (index \<open>k\<close>
  holds what group \<open>k\<close> captured, \<open>None\<close> for \<^verbatim>\<open>undefined\<close>).
\<close>

type_synonym mstate = "jschar option \<times> jsstring \<times> jsstring option list"

fun rsize :: "regex \<Rightarrow> nat" where
  "rsize (Seq a b) = Suc (rsize a + rsize b)"
| "rsize (Alt a b) = Suc (rsize a + rsize b)"
| "rsize (Rep mn mx g a) = Suc (rsize a)"
| "rsize (Group k a) = Suc (rsize a)"
| "rsize (Ahead a) = Suc (rsize a)"
| "rsize r = 0"

fun rep_min :: "regex \<Rightarrow> nat" where
  "rep_min (Rep mn mx g a) = mn"
| "rep_min r = 0"

fun groups_of :: "regex \<Rightarrow> nat list" where
  "groups_of (Seq a b) = groups_of a @ groups_of b"
| "groups_of (Alt a b) = groups_of a @ groups_of b"
| "groups_of (Rep mn mx g a) = groups_of a"
| "groups_of (Group k a) = k # groups_of a"
| "groups_of (Ahead a) = groups_of a"
| "groups_of r = []"

fun clear :: "nat list \<Rightarrow> jsstring option list \<Rightarrow> jsstring option list" where
  "clear [] caps = caps"
| "clear (k # ks) caps = clear ks (caps[k := None])"

definition at_word_boundary :: "jschar option \<Rightarrow> jsstring \<Rightarrow> bool" where
  "at_word_boundary p rest =
     ((case p of None \<Rightarrow> False | Some c \<Rightarrow> isWordChar c) \<noteq>
      (case rest of [] \<Rightarrow> False | c # cs \<Rightarrow> isWordChar c))"

text \<open>
  \<open>rmatch f r s\<close> lists every way \<open>r\<close> can match from state \<open>s\<close>, in the order in which
  a backtracking matcher tries them: the head of the list is the match it reports. A
  quantifier resets the captures of its body before each iteration; once its minimum is
  reached, an iteration that consumes nothing is rejected. A group captures the input
  consumed by its body. A lookahead keeps the captures of its body's first match and
  consumes nothing.
\<close>

function rmatch :: "flags \<Rightarrow> regex \<Rightarrow> mstate \<Rightarrow> mstate list" where
  "rmatch f (Chars A) (p, rest, caps) =
     (case rest of
        [] \<Rightarrow> []
      | c # cs \<Rightarrow> if class_match f A c then [(Some c, cs, caps)] else [])"
| "rmatch f Dot (p, rest, caps) =
     (case rest of
        [] \<Rightarrow> []
      | c # cs \<Rightarrow> if isLineTerminator c then [] else [(Some c, cs, caps)])"
| "rmatch f Eps (p, rest, caps) = [(p, rest, caps)]"
| "rmatch f (Seq a b) (p, rest, caps) =
     concat (map (rmatch f b) (rmatch f a (p, rest, caps)))"
| "rmatch f (Alt a b) (p, rest, caps) =
     rmatch f a (p, rest, caps) @ rmatch f b (p, rest, caps)"
| "rmatch f (Rep mn mx g a) (p, rest, caps) =
     (if mx = Some 0 then [(p, rest, caps)]
      else
        let again =
          concat (map (rmatch f (Rep (mn - 1) (map_option (\<lambda>m. m - 1) mx) g a))
            (filter (\<lambda>s'. mn \<noteq> 0 \<or> length (fst (snd s')) < length rest)
               (rmatch f a (p, rest, clear (groups_of a) caps))))
        in if mn \<noteq> 0 then again
           else if g then again @ [(p, rest, caps)]
           else (p, rest, caps) # again)"
| "rmatch f (Group k a) (p, rest, caps) =
     map (\<lambda>s'. (fst s', fst (snd s'),
                 (snd (snd s'))[k := Some (take (length rest - length (fst (snd s'))) rest)]))
       (rmatch f a (p, rest, caps))"
| "rmatch f Bol (p, rest, caps) =
     (case p of
        None \<Rightarrow> [(p, rest, caps)]
      | Some c \<Rightarrow> if multiline f \<and> isLineTerminator c then [(p, rest, caps)] else [])"
| "rmatch f Eol (p, rest, caps) =
     (case rest of
        [] \<Rightarrow> [(p, rest, caps)]
      | c # cs \<Rightarrow> if multiline f \<and> isLineTerminator c then [(p, rest, caps)] else [])"
| "rmatch f WordB (p, rest, caps) =
     (if at_word_boundary p rest then [(p, rest, caps)] else [])"
| "rmatch f (Ahead a) (p, rest, caps) =
     (case rmatch f a (p, rest, caps) of
        [] \<Rightarrow> []
      | s' # ss \<Rightarrow> [(p, rest, snd (snd s'))])"
  by pat_completeness auto
termination
  by (relation "measures [\<lambda>(f, r, s). rsize r, \<lambda>(f, r, s). rep_min r,
                          \<lambda>(f, r, s). length (fst (snd s))]")
     auto

declare rmatch.simps [simp del]

text \<open>
  A successful match, as the array \<^verbatim>\<open>String.prototype.match\<close> returns for a pattern
  without the \<open>g\<close> flag: element 0 is the matched text, element \<open>k\<close> is what group \<open>k\<close>
  captured. An element outside the array reads as \<^verbatim>\<open>undefined\<close>.
\<close>

type_synonym jsmatch = "jsstring option list"

definition group_at :: "jsmatch \<Rightarrow> nat \<Rightarrow> jsstring option" where
  "group_at m k = (if k < length m then m ! k else None)"

definition ngroups :: "regex \<Rightarrow> nat" where
  "ngroups r = fold max (groups_of r) 0"

text \<open>
  A sufficient syntactic condition for group \<open>k\<close> to be defined after every successful
  match: the group lies on every path through the pattern, outside every quantifier.
\<close>

fun always_sets :: "nat \<Rightarrow> regex \<Rightarrow> bool" where
  "always_sets k (Seq a b) = ((always_sets k a \<and> k \<notin> set (groups_of b)) \<or> always_sets k b)"
| "always_sets k (Alt a b) = (always_sets k a \<and> always_sets k b)"
| "always_sets k (Group j a) = (j = k \<or> always_sets k a)"
| "always_sets k (Ahead a) = always_sets k a"
| "always_sets k r = False"

text \<open>The search tries every start position from the left and reports the first match.\<close>

fun search :: "flags \<Rightarrow> regex \<Rightarrow> jschar option \<Rightarrow> jsstring \<Rightarrow> jsmatch option" where
  "search f r p [] =
     (case rmatch f r (p, [], replicate (Suc (ngroups r)) None) of
        [] \<Rightarrow> None
      | s' # ss \<Rightarrow> Some ((snd (snd s'))[0 := Some []]))"
| "search f r p (c # cs) =
     (case rmatch f r (p, c # cs, replicate (Suc (ngroups r)) None) of
        [] \<Rightarrow> search f r (Some c) cs
      | s' # ss \<Rightarrow>
          Some ((snd (snd s'))[0 := Some (take (length (c # cs) - length (fst (snd s'))) (c # cs))]))"

definition str_match :: "jsstring \<Rightarrow> flags \<Rightarrow> regex \<Rightarrow> jsmatch option" where
  "str_match s f r = search f r None s"

subsection \<open>Notation of patterns\<close>

definition ch :: "char \<Rightarrow> regex" where
  "ch c = Chars [(of_char c, of_char c)]"

definition cu :: "jschar \<Rightarrow> regex" where
  "cu c = Chars [(c, c)]"

fun seqs :: "regex list \<Rightarrow> regex" where
  "seqs [] = Eps"
| "seqs [r] = r"
| "seqs (r # rs) = Seq r (seqs rs)"

fun alts :: "regex list \<Rightarrow> regex" where
  "alts [] = Eps"
| "alts [r] = r"
| "alts (r # rs) = Alt r (alts rs)"

definition units :: "jsstring \<Rightarrow> regex" where
  "units s = seqs (map cu s)"

definition lit :: "string \<Rightarrow> regex" where
  "lit s = units (js s)"

definition many :: "regex \<Rightarrow> regex" where
  "many r = Rep 0 None True r"

definition many1 :: "regex \<Rightarrow> regex" where
  "many1 r = Rep 1 None True r"

definition lazy_many1 :: "regex \<Rightarrow> regex" where
  "lazy_many1 r = Rep 1 None False r"

definition opt :: "regex \<Rightarrow> regex" where
  "opt r = Rep 0 (Some 1) True r"

definition at_least :: "nat \<Rightarrow> regex \<Rightarrow> regex" where
  "at_least n r = Rep n None True r"

definition exactly :: "nat \<Rightarrow> regex \<Rightarrow> regex" where
  "exactly n r = Rep n (Some n) True r"

definition wsp :: regex where
  "wsp = Chars space_ranges"

definition digit :: regex where
  "digit = Chars digit_ranges"


section \<open>The PDF parser (src/pdf/parser.ts)\<close>

text \<open>
  Reading \<^verbatim>\<open>m[k].length\<close> or calling \<^verbatim>\<open>m[k].trim()\<close> on a group that did not
  take part in the match throws a TypeError.
\<close>

definition defined :: "jsstring option \<Rightarrow> error + jsstring" where
  "defined v = (case v of None \<Rightarrow> Inl TypeError | Some s \<Rightarrow> Inr s)"

subsection \<open>REGEX\_PATTERNS\<close>

text \<open>The legal-entity suffixes
  \<^verbatim>\<open>(?:SA\s+DE\s+CV|S\.A\.|EMPRESARIAL|CORPORATION|CORP|INC|LLC)\<close>.\<close>

definition legal_suffix :: regex where
  "legal_suffix =
     alts [seqs [lit ''SA'', many1 wsp, lit ''DE'', many1 wsp, lit ''CV''],
           lit ''S.A.'', lit ''EMPRESARIAL'', lit ''CORPORATION'', lit ''CORP'',
           lit ''INC'', lit ''LLC'']"

text \<open>\<^verbatim>\<open>/^\s*([A-Z]{3,}(?:\s+[A-Z]{3,})*)\s*$/m\<close>\<close>

definition companyName :: regex where
  "companyName =
     seqs [Bol, many wsp,
           Group 1 (seqs [at_least 3 (Chars [(65, 90)]),
                          many (seqs [many1 wsp, at_least 3 (Chars [(65, 90)])])]),
           many wsp, Eol]"

text \<open>\<^verbatim>\<open>/(CAZAN|OPTIMAL|OFFSHORE|CORPORATIVO|EMPRESA|COMPA\u00D1IA|SERVICIOS)/i\<close>,
  with \<^verbatim>\<open>\u00D1\<close> for the letter N with tilde.\<close>

definition knownCompanies :: regex where
  "knownCompanies =
     Group 1 (alts [lit ''CAZAN'', lit ''OPTIMAL'', lit ''OFFSHORE'', lit ''CORPORATIVO'',
                    lit ''EMPRESA'', units (js ''COMPA'' @ [209] @ js ''IA''),
                    lit ''SERVICIOS''])"

text \<open>\<^verbatim>\<open>/\b(CAZAN|OPTIMAL)\b/i\<close>\<close>

definition specificCompanies :: regex where
  "specificCompanies = seqs [WordB, Group 1 (alts [lit ''CAZAN'', lit ''OPTIMAL'']), WordB]"

text \<open>\<^verbatim>\<open>/\b(CAZAN|OPTIMAL)[\s\w]*(?:SA\s+DE\s+CV|S\.A\.|EMPRESARIAL|CORPORATION|CORP|INC|LLC)?/i\<close>\<close>

definition fullCompanyName :: regex where
  "fullCompanyName =
     seqs [WordB, Group 1 (alts [lit ''CAZAN'', lit ''OPTIMAL'']),
           many (Chars (space_ranges @ word_ranges)), opt legal_suffix]"

text \<open>\<^verbatim>\<open>/^\s*([A-Z][A-Z\s]+(?:SA\s+DE\s+CV|S\.A\.|EMPRESARIAL|CORPORATION|CORP|INC|LLC)?)\s*$/\<close>\<close>

definition companyLinePattern :: regex where
  "companyLinePattern =
     seqs [Bol, many wsp,
           Group 1 (seqs [Chars [(65, 90)], many1 (Chars ((65, 90) # space_ranges)),
                          opt legal_suffix]),
           many wsp, Eol]"

subsection \<open>extractCompanyName\<close>

text \<open>
  Each of the five \<^verbatim>\<open>for\<close> loops over the lines is a recursive function: \<open>None\<close> when
  the loop runs to its end, \<open>Some\<close> of what the function returns (or throws) when the loop
  body leaves the function.
\<close>

fun full_name_loop :: "jsstring list \<Rightarrow> (error + jsstring) option" where
  "full_name_loop [] = None"
| "full_name_loop (line # lines) =
     (case str_match line flag_i fullCompanyName of
        Some fullMatch \<Rightarrow>
          Some (case defined (group_at fullMatch 0) of
                  Inl e \<Rightarrow> Inl e
                | Inr m0 \<Rightarrow> Inr (toUpperCase (trim m0)))
      | None \<Rightarrow> full_name_loop lines)"

fun company_line_loop :: "jsstring list \<Rightarrow> (error + jsstring) option" where
  "company_line_loop [] = None"
| "company_line_loop (line # lines) =
     (case str_match line no_flags companyLinePattern of
        Some lineMatch \<Rightarrow>
          (case defined (group_at lineMatch 1) of
             Inl e \<Rightarrow> Some (Inl e)
           | Inr m1 \<Rightarrow>
               if length m1 \<ge> 10 then Some (Inr (toUpperCase (trim m1)))
               else company_line_loop lines)
      | None \<Rightarrow> company_line_loop lines)"

fun specific_loop :: "jsstring list \<Rightarrow> (error + jsstring) option" where
  "specific_loop [] = None"
| "specific_loop (line # lines) =
     (case str_match line flag_i specificCompanies of
        Some specificMatch \<Rightarrow>
          Some (case defined (group_at specificMatch 1) of
                  Inl e \<Rightarrow> Inl e
                | Inr m1 \<Rightarrow> Inr (toUpperCase m1))
      | None \<Rightarrow> specific_loop lines)"

fun known_loop :: "jsstring list \<Rightarrow> (error + jsstring) option" where
  "known_loop [] = None"
| "known_loop (line # lines) =
     (case str_match line flag_i knownCompanies of
        Some knownMatch \<Rightarrow>
          Some (case defined (group_at knownMatch 1) of
                  Inl e \<Rightarrow> Inl e
                | Inr m1 \<Rightarrow> Inr (toUpperCase m1))
      | None \<Rightarrow> known_loop lines)"

fun uppercase_loop :: "jsstring list \<Rightarrow> (error + jsstring) option" where
  "uppercase_loop [] = None"
| "uppercase_loop (l # lines) =
     (let line = trim l in
      case str_match line flag_m companyName of
        Some companyMatch \<Rightarrow>
          (case defined (group_at companyMatch 1) of
             Inl e \<Rightarrow> Some (Inl e)
           | Inr m1 \<Rightarrow>
               if length m1 \<ge> 4 \<and> length m1 \<le> 25 then Some (Inr (trim m1))
               else uppercase_loop lines)
      | None \<Rightarrow> uppercase_loop lines)"

definition unidentified :: jsstring where
  "unidentified = js ''EMPRESA NO IDENTIFICADA''"

definition extractCompanyName :: "jsstring \<Rightarrow> error + jsstring" where
  "extractCompanyName text =
     (let lines = take 15 (split_on 10 text) in
      case full_name_loop lines of Some r \<Rightarrow> r | None \<Rightarrow>
      case company_line_loop lines of Some r \<Rightarrow> r | None \<Rightarrow>
      case specific_loop lines of Some r \<Rightarrow> r | None \<Rightarrow>
      case known_loop lines of Some r \<Rightarrow> r | None \<Rightarrow>
      case uppercase_loop (take (min 5 (length lines)) lines) of Some r \<Rightarrow> r | None \<Rightarrow>
      case str_match text flag_i specificCompanies of
        Some globalMatch \<Rightarrow>
          (case defined (group_at globalMatch 1) of
             Inl e \<Rightarrow> Inl e
           | Inr m1 \<Rightarrow> Inr (toUpperCase m1))
      | None \<Rightarrow> Inr unidentified)"

subsection \<open>The issuer strategies as the specification lists them\<close>

text \<open>
  The text of a group, empty when the group is undefined.
\<close>

definition group_text :: "jsmatch \<Rightarrow> nat \<Rightarrow> jsstring" where
  "group_text m k = (case group_at m k of None \<Rightarrow> [] | Some v \<Rightarrow> v)"

text \<open>
  The specification's strategies, each as a function of one line (or of the whole text)
  that gives the issuer it finds there, or nothing: (1) a brand token optionally followed
  by a legal-entity suffix, (2) a whole upper-case line of length at least 10, (3) a brand
  token alone, (4) a generic corporate keyword, (5) a standalone upper-case run of length
  4 to 25.
\<close>

definition brand_with_suffix :: "jsstring \<Rightarrow> jsstring option" where
  "brand_with_suffix line =
     (case str_match line flag_i fullCompanyName of
        None \<Rightarrow> None
      | Some m \<Rightarrow> Some (toUpperCase (trim (group_text m 0))))"

definition uppercase_line :: "jsstring \<Rightarrow> jsstring option" where
  "uppercase_line line =
     (case str_match line no_flags companyLinePattern of
        None \<Rightarrow> None
      | Some m \<Rightarrow>
          if length (group_text m 1) \<ge> 10 then Some (toUpperCase (trim (group_text m 1)))
          else None)"

definition brand_alone :: "jsstring \<Rightarrow> jsstring option" where
  "brand_alone line =
     (case str_match line flag_i specificCompanies of
        None \<Rightarrow> None
      | Some m \<Rightarrow> Some (toUpperCase (group_text m 1)))"

definition corporate_keyword :: "jsstring \<Rightarrow> jsstring option" where
  "corporate_keyword line =
     (case str_match line flag_i knownCompanies of
        None \<Rightarrow> None
      | Some m \<Rightarrow> Some (toUpperCase (group_text m 1)))"

definition uppercase_run :: "jsstring \<Rightarrow> jsstring option" where
  "uppercase_run line =
     (case str_match (trim line) flag_m companyName of
        None \<Rightarrow> None
      | Some m \<Rightarrow>
          if length (group_text m 1) \<ge> 4 \<and> length (group_text m 1) \<le> 25
          then Some (trim (group_text m 1))
          else None)"

text \<open>A strategy scanned across lines: the first line on which it finds something wins.\<close>

definition first_hit :: "('a \<Rightarrow> 'b option) \<Rightarrow> 'a list \<Rightarrow> 'b option" where
  "first_hit strategy xs =
     (case filter (\<lambda>x. strategy x \<noteq> None) xs of
        [] \<Rightarrow> None
      | x # rest \<Rightarrow> strategy x)"

text \<open>
  The specification of the issuer extraction: strategies 1 to 4 over the first 15 lines,
  strategy 5 over the first 5 lines, strategy 6 (a brand token) over the entire text; the
  first strategy that finds something gives the result, and the sentinel stands for no
  strategy finding anything.
\<close>

definition issuer_strategies :: "jsstring \<Rightarrow> jsstring option list" where
  "issuer_strategies text =
     (let lines = take 15 (split_on 10 text) in
      [first_hit brand_with_suffix lines,
       first_hit uppercase_line lines,
       first_hit brand_alone lines,
       first_hit corporate_keyword lines,
       first_hit uppercase_run (take 5 lines),
       brand_alone text])"

definition extractIssuer_spec :: "jsstring \<Rightarrow> jsstring" where
  "extractIssuer_spec text =
     (case first_hit (\<lambda>found. found) (issuer_strategies text) of
        None \<Rightarrow> unidentified
      | Some name \<Rightarrow> name)"

subsection \<open>extractAmountFromSubject and extractCityFromSubject\<close>

text \<open>The captured amount \<^verbatim>\<open>([\d,]+(?:\.\d{2})?)\<close> as group 1.\<close>

definition amount_group :: regex where
  "amount_group =
     Group 1 (seqs [many1 (Chars [(48, 57), (44, 44)]), opt (seqs [ch CHR ''.'', exactly 2 digit])])"

text \<open>
  \<^verbatim>\<open>/\$\s*([\d,]+(?:\.\d{2})?)/\<close>,
  \<^verbatim>\<open>/([\d,]+(?:\.\d{2})?)\s*(?:pesos|usd|dolares|d\u00F3lares)/i\<close>,
  \<^verbatim>\<open>/(?:monto|cantidad|total|valor)\s*:?\s*\$?\s*([\d,]+(?:\.\d{2})?)/i\<close>,
  \<^verbatim>\<open>/([\d,]+(?:\.\d{2})?)\s*-/\<close>, accented letters written by their code points.
\<close>

definition amountPatterns :: "(flags \<times> regex) list" where
  "amountPatterns =
     [(no_flags, seqs [ch CHR ''$'', many wsp, amount_group]),
      (flag_i, seqs [amount_group, many wsp,
                     alts [lit ''pesos'', lit ''usd'', lit ''dolares'',
                           units (js ''d'' @ [243] @ js ''lares'')]]),
      (flag_i, seqs [alts [lit ''monto'', lit ''cantidad'', lit ''total'', lit ''valor''],
                     many wsp, opt (ch CHR '':''), many wsp, opt (ch CHR ''$''), many wsp,
                     amount_group]),
      (no_flags, seqs [amount_group, many wsp, ch CHR ''-''])]"

text \<open>\<^verbatim>\<open>.replace(/,/g, '')\<close>\<close>

definition remove_commas :: "jsstring \<Rightarrow> jsstring" where
  "remove_commas s = filter (\<lambda>c. c \<noteq> 44) s"

fun amount_loop :: "(flags \<times> regex) list \<Rightarrow> jsstring \<Rightarrow> error + jsstring" where
  "amount_loop [] subject = Inr []"
| "amount_loop ((f, pattern) # patterns) subject =
     (case str_match subject f pattern of
        Some m \<Rightarrow>
          (case defined (group_at m 1) of
             Inl e \<Rightarrow> Inl e
           | Inr m1 \<Rightarrow> Inr (remove_commas m1))
      | None \<Rightarrow> amount_loop patterns subject)"

definition extractAmountFromSubject :: "jsstring \<Rightarrow> error + jsstring" where
  "extractAmountFromSubject subject = amount_loop amountPatterns subject"

text \<open>\<^verbatim>\<open>[a-zA-Z\u00F1\u00D1\u00E1\u00E9\u00ED\u00F3\u00FA\u00C1\u00C9\u00CD\u00D3\u00DA\s]\<close>, \<^verbatim>\<open>[A-Z\u00C1\u00C9\u00CD\u00D3\u00DA\u00D1]\<close> and \<^verbatim>\<open>[a-z\u00E1\u00E9\u00ED\u00F3\u00FA\u00F1]\<close>.\<close>

definition letters_and_space :: "(nat \<times> nat) list" where
  "letters_and_space =
     [(97, 122), (65, 90), (241, 241), (209, 209), (225, 225), (233, 233), (237, 237),
      (243, 243), (250, 250), (193, 193), (201, 201), (205, 205), (211, 211), (218, 218)]
     @ space_ranges"

definition capital :: "(nat \<times> nat) list" where
  "capital = [(65, 90), (193, 193), (201, 201), (205, 205), (211, 211), (218, 218), (209, 209)]"

definition small :: "(nat \<times> nat) list" where
  "small = [(97, 122), (225, 225), (233, 233), (237, 237), (243, 243), (250, 250), (241, 241)]"

text \<open>
  \<^verbatim>\<open>/(?:ciudad|city|lugar|ubicaci\u00F3n|ubicacion)\s*:?\s*([a-zA-Z\u00F1\u00D1\u00E1\u00E9\u00ED\u00F3\u00FA\u00C1\u00C9\u00CD\u00D3\u00DA\s]+?)(?:\s*-|\s*\$|$)/i\<close>,
  \<^verbatim>\<open>/\b([A-Z\u00C1\u00C9\u00CD\u00D3\u00DA\u00D1][a-z\u00E1\u00E9\u00ED\u00F3\u00FA\u00F1]+(?:\s+[A-Z\u00C1\u00C9\u00CD\u00D3\u00DA\u00D1][a-z\u00E1\u00E9\u00ED\u00F3\u00FA\u00F1]+)*)\b(?=\s*\$|\s*-|$)/\<close>,
  \<^verbatim>\<open>/\b(TABASCO|CANCUN|CANC\u00DAN|PLAYA|CARMEN|CABOS|COZUMEL|M\u00C9RIDA|MERIDA|GUADALAJARA|MONTERREY|TIJUANA|PUEBLA|QUERETARO|QUER\u00C9TARO|VERACRUZ|ACAPULCO|MAZATL\u00C1N|MAZATLAN|PUERTO\s+VALLARTA|VALLARTA)\b/i\<close>.
\<close>

definition cityPatterns :: "(flags \<times> regex) list" where
  "cityPatterns =
     [(flag_i,
       seqs [alts [lit ''ciudad'', lit ''city'', lit ''lugar'',
                   units (js ''ubicaci'' @ [243] @ js ''n''), lit ''ubicacion''],
             many wsp, opt (ch CHR '':''), many wsp,
             Group 1 (lazy_many1 (Chars letters_and_space)),
             alts [seqs [many wsp, ch CHR ''-''], seqs [many wsp, ch CHR ''$''], Eol]]),
      (no_flags,
       seqs [WordB,
             Group 1 (seqs [Chars capital, many1 (Chars small),
                            many (seqs [many1 wsp, Chars capital, many1 (Chars small)])]),
             WordB,
             Ahead (alts [seqs [many wsp, ch CHR ''$''], seqs [many wsp, ch CHR ''-''], Eol])]),
      (flag_i,
       seqs [WordB,
             Group 1 (alts [lit ''TABASCO'', lit ''CANCUN'', units (js ''CANC'' @ [218] @ js ''N''),
                            lit ''PLAYA'', lit ''CARMEN'', lit ''CABOS'', lit ''COZUMEL'',
                            units (js ''M'' @ [201] @ js ''RIDA''), lit ''MERIDA'',
                            lit ''GUADALAJARA'', lit ''MONTERREY'', lit ''TIJUANA'',
                            lit ''PUEBLA'', lit ''QUERETARO'',
                            units (js ''QUER'' @ [201] @ js ''TARO''), lit ''VERACRUZ'',
                            lit ''ACAPULCO'', units (js ''MAZATL'' @ [193] @ js ''N''),
                            lit ''MAZATLAN'',
                            seqs [lit ''PUERTO'', many1 wsp, lit ''VALLARTA''],
                            lit ''VALLARTA'']),
             WordB])]"

text \<open>\<^verbatim>\<open>/\b(?:RECURSO|los|las)\s+([a-zA-Z\u00F1\u00D1\u00E1\u00E9\u00ED\u00F3\u00FA\u00C1\u00C9\u00CD\u00D3\u00DA\s]+?)\s*\$/i\<close>\<close>

definition locationPattern :: regex where
  "locationPattern =
     seqs [WordB, alts [lit ''RECURSO'', lit ''los'', lit ''las''], many1 wsp,
           Group 1 (lazy_many1 (Chars letters_and_space)), many wsp, ch CHR ''$'']"

fun city_loop :: "(flags \<times> regex) list \<Rightarrow> jsstring \<Rightarrow> (error + jsstring) option" where
  "city_loop [] subject = None"
| "city_loop ((f, pattern) # patterns) subject =
     (case str_match subject f pattern of
        Some m \<Rightarrow>
          Some (case defined (group_at m 1) of
                  Inl e \<Rightarrow> Inl e
                | Inr m1 \<Rightarrow> Inr (trim m1))
      | None \<Rightarrow> city_loop patterns subject)"

definition extractCityFromSubject :: "jsstring \<Rightarrow> error + jsstring" where
  "extractCityFromSubject subject =
     (case city_loop cityPatterns subject of
        Some r \<Rightarrow> r
      | None \<Rightarrow>
          (case str_match subject flag_i locationPattern of
             Some locationMatch \<Rightarrow>
               (case defined (group_at locationMatch 1) of
                  Inl e \<Rightarrow> Inl e
                | Inr m1 \<Rightarrow> Inr (trim m1))
           | None \<Rightarrow> Inr []))"

text \<open>The subject of the specification's example.\<close>

definition example_subject :: jsstring where
  "example_subject = js ''Solicitud - Recurso Tabasco $1,500.00 - entrega''"

subsection \<open>extractDataFromText and parsePDF\<close>

record SolicitudParsed =
  cantidad :: jsstring
  domicilioEntrega :: jsstring
  fechaEntrega :: jsstring
  horario :: jsstring
  ciudad :: jsstring

definition no_especificada :: jsstring where
  "no_especificada = js ''No especificada''"

text \<open>\<^verbatim>\<open>domicilioEntrega: companyName || 'No especificada'\<close>: the empty string is falsy.\<close>

definition extractDataFromText :: "jsstring \<Rightarrow> error + SolicitudParsed" where
  "extractDataFromText text =
     (case extractCompanyName text of
        Inl e \<Rightarrow> Inl e
      | Inr name \<Rightarrow>
          Inr \<lparr>cantidad = [],
               domicilioEntrega = (if name = [] then no_especificada else name),
               fechaEntrega = [], horario = [], ciudad = []\<rparr>)"

text \<open>
  \<open>pdfParse\<close> is the external library call that renders the document as text, or
  throws. Whatever is thrown inside \<^verbatim>\<open>parsePDF\<close> is caught and thrown again as
  "PDF parsing failed".
\<close>

definition parsePDF :: "('buf \<Rightarrow> error + jsstring) \<Rightarrow> 'buf \<Rightarrow> error + SolicitudParsed" where
  "parsePDF pdfParse pdfBuffer =
     (case pdfParse pdfBuffer of
        Inl e \<Rightarrow> Inl PdfParseError
      | Inr text \<Rightarrow>
          (case extractDataFromText text of
             Inl e \<Rightarrow> Inl PdfParseError
           | Inr parsedData \<Rightarrow> Inr parsedData))"


section \<open>The ledger writer (class ExcelWriter of src/excel/writer.ts)\<close>

subsection \<open>Numbers\<close>

text \<open>
  A JavaScript number is an IEEE 754 double: not-a-number, an infinity (\<open>True\<close> for the
  negative one), or a finite double, given by its sign (\<open>True\<close> for negative, so that
  the two zeros differ) and its magnitude, a rational that is exactly representable.
\<close>

datatype jsnumber = NaN | Infinity bool | Number bool rat

text \<open>The number of binary digits of a natural number.\<close>

fun bit_length :: "nat \<Rightarrow> nat" where
  "bit_length n = (if n = 0 then 0 else Suc (bit_length (n div 2)))"

declare bit_length.simps [simp del]

text \<open>The integer \<open>e\<close> with \<open>2 ^ e \<le> a / b < 2 ^ (e + 1)\<close>, for positive \<open>a\<close> and \<open>b\<close>.\<close>

definition binary_exponent :: "nat \<Rightarrow> nat \<Rightarrow> int" where
  "binary_exponent a b =
     (let d = int (bit_length a) - int (bit_length b) in
      if (if 0 \<le> d then 2 ^ nat d * b \<le> a else b \<le> 2 ^ nat (- d) * a) then d else d - 1)"

text \<open>The integer nearest to \<open>n / d\<close>, the even one of two that are equally near.\<close>

definition round_half_even :: "nat \<Rightarrow> nat \<Rightarrow> nat" where
  "round_half_even n d =
     (let q = n div d; r = n mod d in
      if 2 * r < d then q
      else if d < 2 * r then q + 1
      else if even q then q else q + 1)"

text \<open>
  The double nearest to \<open>a / b\<close> (round to nearest, ties to even), with the given sign:
  the quotient is rounded to a multiple of \<open>2 ^ (e - 52)\<close>, where \<open>e\<close> is its binary
  exponent and at least -1022 (below that the doubles are subnormal); a result of
  \<open>2 ^ 1024\<close> or more is an infinity.
\<close>

definition to_double :: "bool \<Rightarrow> nat \<Rightarrow> nat \<Rightarrow> jsnumber" where
  "to_double neg a b =
     (if a = 0 then Number neg 0
      else
        let s = max (binary_exponent a b) (- 1022) - 52;
            m = (if 0 \<le> s then round_half_even a (b * 2 ^ nat s)
                 else round_half_even (a * 2 ^ nat (- s)) b);
            x = (if 0 \<le> s then of_nat m * 2 ^ nat s else of_nat m / 2 ^ nat (- s))
        in if 2 ^ 1024 \<le> x then Infinity neg else Number neg x)"

definition digits_value :: "jsstring \<Rightarrow> nat" where
  "digits_value ds = foldl (\<lambda>a d. 10 * a + (d - 48)) 0 ds"

text \<open>The exponent part \<^verbatim>\<open>e\<close> or \<^verbatim>\<open>E\<close>, an optional sign and at least one digit;
  0 when the text does not start with a complete exponent part.\<close>

definition exponent_part :: "jsstring \<Rightarrow> int" where
  "exponent_part s =
     (case s of
        [] \<Rightarrow> 0
      | c # cs \<Rightarrow>
          if c = 101 \<or> c = 69 then
            (case cs of
               [] \<Rightarrow> 0
             | d # ds \<Rightarrow>
                 if d = 45 then
                   (if takeWhile isDigit ds = [] then 0
                    else - int (digits_value (takeWhile isDigit ds)))
                 else if d = 43 then int (digits_value (takeWhile isDigit ds))
                 else int (digits_value (takeWhile isDigit (d # ds))))
          else 0)"

text \<open>
  The double of the decimal literal with integer digits \<open>ip\<close>, fraction digits \<open>fp\<close>
  and decimal exponent \<open>ex\<close>: the mathematical value is
  \<open>digits_value (ip @ fp) * 10 ^ (ex - length fp)\<close>.
\<close>

definition decimal_double :: "bool \<Rightarrow> jsstring \<Rightarrow> jsstring \<Rightarrow> int \<Rightarrow> jsnumber" where
  "decimal_double neg ip fp ex =
     (let k = ex - int (length fp) in
      if 0 \<le> k then to_double neg (digits_value (ip @ fp) * 10 ^ nat k) 1
      else to_double neg (digits_value (ip @ fp)) (10 ^ nat (- k)))"

text \<open>
  \<^verbatim>\<open>parseFloat\<close>: skip leading white space, read the longest prefix that is a
  StrDecimalLiteral (an optional sign, then \<^verbatim>\<open>Infinity\<close> or digits with an optional
  fraction and an optional exponent part; one of the integer and fraction digit runs may
  be empty, not both), and ignore what follows. No such prefix: NaN. The result is the
  double nearest to the value read (ECMAScript lets an implementation ignore digits
  after the 20th significant one; Node rounds the exact value).
\<close>

definition unsigned_literal :: "bool \<Rightarrow> jsstring \<Rightarrow> jsnumber" where
  "unsigned_literal neg u =
     (let ip = takeWhile isDigit u; r1 = dropWhile isDigit u in
      case r1 of
        [] \<Rightarrow> if ip = [] then NaN else decimal_double neg ip [] 0
      | c # cs \<Rightarrow>
          if c = 46 then
            (let fp = takeWhile isDigit cs; r2 = dropWhile isDigit cs in
             if ip = [] \<and> fp = [] then NaN
             else decimal_double neg ip fp (exponent_part r2))
          else if ip = [] then NaN
          else decimal_double neg ip [] (exponent_part r1))"

definition parseFloat :: "jsstring \<Rightarrow> jsnumber" where
  "parseFloat s =
     (let t = dropWhile isWhiteSpace s;
          neg = (case t of [] \<Rightarrow> False | c # cs \<Rightarrow> c = 45);
          u = (case t of [] \<Rightarrow> [] | c # cs \<Rightarrow> if c = 45 \<or> c = 43 then cs else t)
      in if is_prefix (js ''Infinity'') u then Infinity neg
         else unsigned_literal neg u)"

text \<open>
  Two readings of "the text parses as a decimal number", both on the text alone. The
  strict one: the whole text is an optional sign, digits and an optional fraction of a
  point and digits. The lenient one: after white space and an optional sign the text
  starts with a digit, with a point and a digit, or with \<^verbatim>\<open>Infinity\<close>, whatever follows.
\<close>

definition decimal_numeral :: "jsstring \<Rightarrow> bool" where
  "decimal_numeral s =
     (let u = (case s of [] \<Rightarrow> [] | c # cs \<Rightarrow> if c = 45 \<or> c = 43 then cs else s);
          ip = takeWhile isDigit u; r = dropWhile isDigit u
      in ip \<noteq> [] \<and>
         (case r of
            [] \<Rightarrow> True
          | c # cs \<Rightarrow> c = 46 \<and> cs \<noteq> [] \<and> list_all isDigit cs))"

text \<open>The fraction of a decimal number as text: nothing, or a point and the digits.\<close>

definition fraction_text :: "jsstring \<Rightarrow> jsstring" where
  "fraction_text fp = (if fp = [] then [] else 46 # fp)"

text \<open>What may follow a decimal number without being read as part of it.\<close>

definition ends_number :: "jsstring \<Rightarrow> bool" where
  "ends_number rest =
     (case rest of
        [] \<Rightarrow> True
      | c # cs \<Rightarrow> \<not> isDigit c \<and> c \<noteq> 46 \<and> c \<noteq> 101 \<and> c \<noteq> 69)"

definition has_decimal_prefix :: "jsstring \<Rightarrow> bool" where
  "has_decimal_prefix s =
     (let t = dropWhile isWhiteSpace s;
          u = (case t of [] \<Rightarrow> [] | c # cs \<Rightarrow> if c = 45 \<or> c = 43 then cs else t)
      in is_prefix (js ''Infinity'') u \<or>
         (case u of
            [] \<Rightarrow> False
          | d # ds \<Rightarrow>
              isDigit d \<or>
              (d = 46 \<and> (case ds of [] \<Rightarrow> False | d2 # ds2 \<Rightarrow> isDigit d2))))"

subsection \<open>The worksheet\<close>

text \<open>
  A cell holds a value and a number format. Fonts, fills, borders and column widths are
  styling: they are set by the code and read by none of it, and are left out of the
  model.
\<close>

datatype cell_value =
    CNull
  | CText jsstring
  | CNumber jsnumber
  | CHyperlink (link_text: jsstring) (link_target: jsstring)

record cell =
  cvalue :: cell_value
  numFmt :: "jsstring option"

type_synonym row = "cell list"

definition text_cell :: "jsstring \<Rightarrow> cell" where
  "text_cell s = \<lparr>cvalue = CText s, numFmt = None\<rparr>"

definition empty_cell :: cell where
  "empty_cell = \<lparr>cvalue = CNull, numFmt = None\<rparr>"

text \<open>\<^verbatim>\<open>row.getCell(k)\<close>, columns counted from 1; a cell that was never written is empty.\<close>

definition getCell :: "row \<Rightarrow> nat \<Rightarrow> cell" where
  "getCell r k = (if 1 \<le> k \<and> k \<le> length r then r ! (k - 1) else empty_cell)"

record worksheet =
  rows :: "row list"
  autoFilter :: "jsstring option"

text \<open>\<^verbatim>\<open>worksheet.rowCount\<close> and \<^verbatim>\<open>worksheet.addRow(values)\<close>.\<close>

definition rowCount :: "worksheet \<Rightarrow> nat" where
  "rowCount ws = length (rows ws)"

definition addRow :: "worksheet \<Rightarrow> row \<Rightarrow> worksheet" where
  "addRow ws r = ws\<lparr>rows := rows ws @ [r]\<rparr>"

text \<open>
  The writer: the worksheet in memory (\<open>None\<close> until \<^verbatim>\<open>initialize\<close> has run) and the
  worksheet last written to the file.
\<close>

record ExcelWriter =
  worksheet :: "worksheet option"
  savedFile :: "worksheet option"

record SolicitudData =
  fecha :: jsstring
  operador :: jsstring
  sucursal :: jsstring
  monto :: jsstring
  link :: jsstring
  solicitudMessageId :: jsstring

text \<open>The headers \<^verbatim>\<open>setupHeaders\<close> writes into row 1.\<close>

definition header_row :: row where
  "header_row = map text_cell [js ''FECHA'', js ''OPERADOR'', js ''SUCURSAL'', js ''MONTO'', js ''LINK'']"

definition initial_worksheet :: worksheet where
  "initial_worksheet = \<lparr>rows = [header_row], autoFilter = None\<rparr>"

text \<open>
  \<^verbatim>\<open>setupWorksheet\<close>, from the worksheet of that name in the loaded workbook, if there
  is one: a worksheet without rows gets the header row. \<^verbatim>\<open>initialize\<close> rethrows a
  failed save of the headers; the worksheet is set by then.
\<close>

definition setupWorksheet :: "worksheet option \<Rightarrow> worksheet" where
  "setupWorksheet loaded =
     (let ws = (case loaded of None \<Rightarrow> \<lparr>rows = [], autoFilter = None\<rparr> | Some ws \<Rightarrow> ws)
      in if rowCount ws = 0 then addRow ws header_row else ws)"

definition initialize ::
  "(worksheet \<Rightarrow> bool) \<Rightarrow> worksheet option \<Rightarrow> error option \<times> ExcelWriter" where
  "initialize writeFile loaded =
     (let ws = setupWorksheet loaded in
      if (case loaded of None \<Rightarrow> True | Some old \<Rightarrow> rowCount old = 0) then
        (if writeFile ws then (None, \<lparr>worksheet = Some ws, savedFile = Some ws\<rparr>)
         else (Some SaveError, \<lparr>worksheet = Some ws, savedFile = loaded\<rparr>))
      else (None, \<lparr>worksheet = Some ws, savedFile = loaded\<rparr>))"

text \<open>
  \<^verbatim>\<open>findExistingRow\<close>: rows 2 to \<^verbatim>\<open>rowCount\<close>, column 6 compared with \<^verbatim>\<open>===\<close>, which
  holds for a text cell with the same text only.
\<close>

fun find_from :: "row list \<Rightarrow> jsstring \<Rightarrow> row option" where
  "find_from [] messageId = None"
| "find_from (r # rs) messageId =
     (if cvalue (getCell r 6) = CText messageId then Some r else find_from rs messageId)"

definition findExistingRow :: "ExcelWriter \<Rightarrow> jsstring \<Rightarrow> row option" where
  "findExistingRow w messageId =
     (case worksheet w of
        None \<Rightarrow> None
      | Some ws \<Rightarrow> find_from (drop 1 (rows ws)) messageId)"

text \<open>\<^verbatim>\<open>parseAmount\<close>; \<^verbatim>\<open>.replace(/[$,]/g, '')\<close> drops every dollar sign and comma.\<close>

definition cleanAmount :: "jsstring \<Rightarrow> jsstring" where
  "cleanAmount amountString = trim (filter (\<lambda>c. c \<noteq> 36 \<and> c \<noteq> 44) amountString)"

definition parseAmount :: "jsstring \<Rightarrow> jsnumber option" where
  "parseAmount amountString =
     (if amountString = [] \<or> amountString = no_especificada then None
      else (let numericValue = parseFloat (cleanAmount amountString) in
            if numericValue = NaN then None else Some numericValue))"

definition accounting_format :: jsstring where
  "accounting_format = js ''_($* #,##0.00_);_($* (#,##0.00);_($* \"-\"??_);_(@_)''"

text \<open>\<^verbatim>\<open>createFilterableTable\<close>: with a data row present, the filter covers \<open>A1:F<rowCount>\<close>.\<close>

definition createFilterableTable :: "worksheet \<Rightarrow> worksheet" where
  "createFilterableTable ws =
     (if rowCount ws \<le> 1 then ws
      else ws\<lparr>autoFilter := Some (js ''A1:F'' @ digits_of (rowCount ws))\<rparr>)"

text \<open>The cells of the new row, after the MONTO cell (column 4) and the LINK cell
  (column 5) have been formatted.\<close>

definition montoCell :: "jsstring \<Rightarrow> cell" where
  "montoCell m =
     (if m \<noteq> [] \<and> m \<noteq> no_especificada then
        (case parseAmount m of
           Some amount \<Rightarrow> \<lparr>cvalue = CNumber amount, numFmt = Some accounting_format\<rparr>
         | None \<Rightarrow> text_cell m)
      else text_cell m)"

definition linkCell :: "jsstring \<Rightarrow> cell" where
  "linkCell l =
     (if l \<noteq> [] then \<lparr>cvalue = CHyperlink (js ''Ver correo'') l, numFmt = None\<rparr>
      else text_cell l)"

definition newRow :: "SolicitudData \<Rightarrow> row" where
  "newRow solicitud =
     [text_cell (fecha solicitud), text_cell (operador solicitud),
      text_cell (sucursal solicitud), montoCell (monto solicitud),
      linkCell (link solicitud), text_cell (solicitudMessageId solicitud)]"

text \<open>
  \<^verbatim>\<open>appendSolicitud\<close>. \<open>writeFile\<close> tells whether writing a worksheet to the file
  succeeds. The result is what was thrown (\<open>None\<close> for a normal return) and the writer
  afterwards: a failed save rethrows, and leaves the new row in the worksheet in memory.
\<close>

definition appendSolicitud ::
  "(worksheet \<Rightarrow> bool) \<Rightarrow> ExcelWriter \<Rightarrow> SolicitudData \<Rightarrow> error option \<times> ExcelWriter" where
  "appendSolicitud writeFile w solicitud =
     (case worksheet w of
        None \<Rightarrow> (Some NotInitialized, w)
      | Some ws \<Rightarrow>
          (case findExistingRow w (solicitudMessageId solicitud) of
             Some existingRow \<Rightarrow> (None, w)
           | None \<Rightarrow>
               (let ws' = createFilterableTable (addRow ws (newRow solicitud)) in
                if writeFile ws' then (None, w\<lparr>worksheet := Some ws', savedFile := Some ws'\<rparr>)
                else (Some SaveError, w\<lparr>worksheet := Some ws'\<rparr>))))"

text \<open>A sequence of appends, each with its own outcome of the save; the callers catch
  what an append throws.\<close>

fun appends :: "ExcelWriter \<Rightarrow> ((worksheet \<Rightarrow> bool) \<times> SolicitudData) list \<Rightarrow> ExcelWriter" where
  "appends w [] = w"
| "appends w ((writeFile, solicitud) # rest) =
     appends (snd (appendSolicitud writeFile w solicitud)) rest"

text \<open>The number of data rows (rows 2 to \<^verbatim>\<open>rowCount\<close>) whose hidden column 6 holds a
  given message id, and the data row written last.\<close>

definition rows_with :: "worksheet \<Rightarrow> jsstring \<Rightarrow> nat" where
  "rows_with ws messageId =
     length (filter (\<lambda>r. cvalue (getCell r 6) = CText messageId) (drop 1 (rows ws)))"

text \<open>The amount cell (column 4) of the last row of the worksheet in memory.\<close>

definition stored_amount :: "ExcelWriter \<Rightarrow> cell option" where
  "stored_amount w =
     (case worksheet w of
        None \<Rightarrow> None
      | Some ws \<Rightarrow> if rows ws = [] then None else Some (getCell (last (rows ws)) 4))"

text \<open>An example: a freshly initialised writer and a record.\<close>

definition example_writer :: ExcelWriter where
  "example_writer = snd (initialize (\<lambda>ws. True) None)"

definition example_save :: "worksheet \<Rightarrow> bool" where
  "example_save ws = True"

definition failing_save :: "worksheet \<Rightarrow> bool" where
  "failing_save ws = False"

definition example_solicitud :: "jsstring \<Rightarrow> SolicitudData" where
  "example_solicitud amount_text =
     \<lparr>fecha = js ''24-jun'', operador = js ''CAZAN'', sucursal = js ''Tabasco'',
      monto = amount_text, link = js ''https://mail.google.com/mail/u/1/#inbox/m1'',
      solicitudMessageId = js ''m1''\<rparr>"


section \<open>The mailbox watcher (src/gmail/watcher.ts, with the interfaces of src/types.ts)\<close>

record GmailAttachment =
  filename :: jsstring
  mimeType :: jsstring
  attachmentId :: jsstring
  sizeBytes :: nat

text \<open>\<open>receivedAt\<close> is a \<^verbatim>\<open>Date\<close>: the day of the month and the month index (0 to 11)
  it reports, or \<open>None\<close> for an invalid date.\<close>

record ProcessedEmail =
  messageId :: jsstring
  subject :: jsstring
  sender :: jsstring
  receivedAt :: "(nat \<times> nat) option"
  attachments :: "GmailAttachment list"

text \<open>
  What \<^verbatim>\<open>users.messages.get\<close> delivers for a message, after the header lookup and
  the walk over the parts of the payload (\<^verbatim>\<open>extractAttachments\<close>).
\<close>

record raw_message =
  rawSubject :: jsstring
  rawSender :: jsstring
  rawDate :: "(nat \<times> nat) option"
  rawAttachments :: "GmailAttachment list"

text \<open>
  The world outside the program: the answer of the message query (a list of message
  entries, each with an id or without), what the two further queries made after an empty
  answer throw (they are only logged), the message fetch, the attachment download, the
  PDF text rendering, and whether writing the workbook file succeeds.
\<close>

record 'buf env =
  listMessages :: "error + jsstring option list"
  broadQueries :: "error option"
  getMessage :: "jsstring \<Rightarrow> error + raw_message"
  download :: "jsstring \<Rightarrow> jsstring \<Rightarrow> error + 'buf"
  pdfParse :: "'buf \<Rightarrow> error + jsstring"
  writeFile :: "worksheet \<Rightarrow> bool"

text \<open>The watcher: whether the Gmail client exists, and the in-process set of seen
  message ids (\<^verbatim>\<open>processedMessages\<close>).\<close>

record GmailWatcher =
  gmailReady :: bool
  processedMessages :: "jsstring set"

text \<open>The filter of \<^verbatim>\<open>getMessageDetails\<close>:
  \<^verbatim>\<open>attachments.filter(att => att.mimeType === 'application/pdf')\<close>.\<close>

definition pdfAttachments :: "GmailAttachment list \<Rightarrow> GmailAttachment list" where
  "pdfAttachments atts = filter (\<lambda>att. mimeType att = js ''application/pdf'') atts"

text \<open>\<^verbatim>\<open>getMessageDetails\<close>: a failed fetch is caught and gives \<^verbatim>\<open>null\<close>, as does a
  message without PDF attachment.\<close>

definition getMessageDetails :: "'buf env \<Rightarrow> jsstring \<Rightarrow> ProcessedEmail option" where
  "getMessageDetails e mid =
     (case getMessage e mid of
        Inl err \<Rightarrow> None
      | Inr message \<Rightarrow>
          if pdfAttachments (rawAttachments message) = [] then None
          else Some \<lparr>messageId = mid, subject = rawSubject message,
                      sender = rawSender message, receivedAt = rawDate message,
                      attachments = pdfAttachments (rawAttachments message)\<rparr>)"

text \<open>
  The loop of \<^verbatim>\<open>checkForNewMessages\<close> over the listed messages, with the emails
  collected so far and the seen set:
  \<^verbatim>\<open>
  if (message.id && !this.processedMessages.has(message.id)) {
    const processedEmail = await this.getMessageDetails(message.id);
    if (processedEmail) {
      processedEmails.push(processedEmail);
      this.processedMessages.add(message.id);
    }
  }
  \<close>
  A missing id and the empty id are falsy.
\<close>

fun messages_loop ::
  "'buf env \<Rightarrow> jsstring option list \<Rightarrow> ProcessedEmail list \<times> jsstring set
     \<Rightarrow> ProcessedEmail list \<times> jsstring set" where
  "messages_loop e [] (processedEmails, seen) = (processedEmails, seen)"
| "messages_loop e (m # ms) (processedEmails, seen) =
     (case m of
        None \<Rightarrow> messages_loop e ms (processedEmails, seen)
      | Some mid \<Rightarrow>
          if mid \<noteq> [] \<and> mid \<notin> seen then
            (case getMessageDetails e mid of
               Some processedEmail \<Rightarrow>
                 messages_loop e ms (processedEmails @ [processedEmail], insert mid seen)
             | None \<Rightarrow> messages_loop e ms (processedEmails, seen))
          else messages_loop e ms (processedEmails, seen))"

definition checkForNewMessages ::
  "'buf env \<Rightarrow> GmailWatcher \<Rightarrow> (error + ProcessedEmail list) \<times> GmailWatcher" where
  "checkForNewMessages e w =
     (if \<not> gmailReady w then (Inl NotInitialized, w)
      else
        (case listMessages e of
           Inl err \<Rightarrow> (Inl err, w)
         | Inr messages \<Rightarrow>
             if messages = [] then
               (case broadQueries e of
                  Some err \<Rightarrow> (Inl err, w)
                | None \<Rightarrow> (Inr [], w))
             else
               (let (processedEmails, seen) = messages_loop e messages ([], processedMessages w)
                in (Inr processedEmails, w\<lparr>processedMessages := seen\<rparr>))))"

text \<open>
  \<^verbatim>\<open>downloadAttachment\<close> throws when the Gmail client does not exist, and rethrows what
  the download throws. \<^verbatim>\<open>markAsProcessed\<close> throws when the Gmail client does not
  exist; with a client it catches and logs whatever goes wrong.
\<close>

definition downloadAttachment ::
  "'buf env \<Rightarrow> GmailWatcher \<Rightarrow> jsstring \<Rightarrow> jsstring \<Rightarrow> error + 'buf" where
  "downloadAttachment e w mid aid =
     (if \<not> gmailReady w then Inl NotInitialized else download e mid aid)"

definition markAsProcessed :: "GmailWatcher \<Rightarrow> jsstring \<Rightarrow> error option" where
  "markAsProcessed w mid = (if \<not> gmailReady w then Some NotInitialized else None)"


section \<open>The pipeline (class MonitoreoGmail of src/index.ts)\<close>

subsection \<open>Attachment order\<close>

text \<open>
  \<^verbatim>\<open>Array.prototype.sort\<close> with a comparator is a stable sort; for a comparator that
  compares keys every stable sort gives the same list. It is modelled by insertion sort:
  an element is put before the first element it does not compare greater than.
\<close>

fun insert_by :: "('a \<Rightarrow> 'a \<Rightarrow> int) \<Rightarrow> 'a \<Rightarrow> 'a list \<Rightarrow> 'a list" where
  "insert_by cmp x [] = [x]"
| "insert_by cmp x (y # ys) = (if cmp x y \<le> 0 then x # y # ys else y # insert_by cmp x ys)"

fun sort_by :: "('a \<Rightarrow> 'a \<Rightarrow> int) \<Rightarrow> 'a list \<Rightarrow> 'a list" where
  "sort_by cmp [] = []"
| "sort_by cmp (x # xs) = insert_by cmp x (sort_by cmp xs)"

text \<open>\<^verbatim>\<open>a.filename.toLowerCase().includes('carta')\<close> and the comparator
  \<^verbatim>\<open>Number(aIsCarta) - Number(bIsCarta)\<close>.\<close>

definition isCarta :: "GmailAttachment \<Rightarrow> bool" where
  "isCarta a = js_includes (toLowerCase (filename a)) (js ''carta'')"

definition carta_order :: "GmailAttachment \<Rightarrow> GmailAttachment \<Rightarrow> int" where
  "carta_order a b = (if isCarta a then 1 else 0) - (if isCarta b then 1 else 0)"

definition sortedAttachments :: "GmailAttachment list \<Rightarrow> GmailAttachment list" where
  "sortedAttachments atts = sort_by carta_order atts"

text \<open>The attachments of a fetched message in the order in which \<^verbatim>\<open>processEmail\<close>
  works on them: the filter of \<^verbatim>\<open>getMessageDetails\<close>, then the sort.\<close>

definition selectAttachments :: "GmailAttachment list \<Rightarrow> GmailAttachment list" where
  "selectAttachments atts = sortedAttachments (pdfAttachments atts)"

text \<open>The attachments of the specification's example.\<close>

definition example_attachments :: "GmailAttachment list" where
  "example_attachments =
     [\<lparr>filename = js ''CARTA.pdf'', mimeType = js ''application/pdf'',
       attachmentId = js ''a1'', sizeBytes = 100\<rparr>,
      \<lparr>filename = js ''FACTURA.pdf'', mimeType = js ''application/pdf'',
       attachmentId = js ''a2'', sizeBytes = 200\<rparr>,
      \<lparr>filename = js ''note.txt'', mimeType = js ''text/plain'',
       attachmentId = js ''a3'', sizeBytes = 10\<rparr>]"

subsection \<open>Record assembly\<close>

text \<open>
  \<^verbatim>\<open>/^(.+?)\s*<.*>$/\<close>, \<^verbatim>\<open>/<(.+?)@/\<close> and
  \<^verbatim>\<open>/^(?:solicitud|pedido|orden)\s+(?:de\s+)?(.+?)(?:\s+-|$)/i\<close>.
\<close>

definition displayNamePattern :: regex where
  "displayNamePattern =
     seqs [Bol, Group 1 (lazy_many1 Dot), many wsp, ch CHR ''<'', many Dot, ch CHR ''>'', Eol]"

definition addressPattern :: regex where
  "addressPattern = seqs [ch CHR ''<'', Group 1 (lazy_many1 Dot), ch CHR ''@'']"

definition subjectPattern :: regex where
  "subjectPattern =
     seqs [Bol, alts [lit ''solicitud'', lit ''pedido'', lit ''orden''], many1 wsp,
           opt (seqs [lit ''de'', many1 wsp]), Group 1 (lazy_many1 Dot),
           alts [seqs [many1 wsp, ch CHR ''-''], Eol]]"

definition extractClientName :: "jsstring \<Rightarrow> jsstring \<Rightarrow> error + jsstring" where
  "extractClientName sender_text subject_text =
     (case str_match sender_text no_flags displayNamePattern of
        Some emailMatch \<Rightarrow>
          (case defined (group_at emailMatch 1) of
             Inl e \<Rightarrow> Inl e
           | Inr m1 \<Rightarrow> Inr (trim m1))
      | None \<Rightarrow>
     (case str_match sender_text no_flags addressPattern of
        Some emailAddressMatch \<Rightarrow>
          (case defined (group_at emailAddressMatch 1) of
             Inl e \<Rightarrow> Inl e
           | Inr m1 \<Rightarrow> Inr (trim m1))
      | None \<Rightarrow>
     (case str_match subject_text flag_i subjectPattern of
        Some subjectMatch \<Rightarrow>
          (case defined (group_at subjectMatch 1) of
             Inl e \<Rightarrow> Inl e
           | Inr m1 \<Rightarrow> Inr (trim m1))
      | None \<Rightarrow> Inr sender_text)))"

text \<open>\<^verbatim>\<open>formatShortDate\<close>: an invalid date renders as \<^verbatim>\<open>NaN-undefined\<close>.\<close>

definition months :: "jsstring list" where
  "months = [js ''ene'', js ''feb'', js ''mar'', js ''abr'', js ''may'', js ''jun'',
             js ''jul'', js ''ago'', js ''sep'', js ''oct'', js ''nov'', js ''dic'']"

definition formatShortDate :: "(nat \<times> nat) option \<Rightarrow> jsstring" where
  "formatShortDate d =
     (case d of
        None \<Rightarrow> js ''NaN-undefined''
      | Some (day, month) \<Rightarrow>
          digits_of day @ js ''-'' @
          (if month < length months then months ! month else js ''undefined''))"

definition generateGmailLink :: "jsstring \<Rightarrow> jsstring" where
  "generateGmailLink mid = js ''https://mail.google.com/mail/u/1/#inbox/'' @ mid"

text \<open>
  The client name:
  \<^verbatim>\<open>
  const cliente = parsedData.domicilioEntrega !== 'No especificada'
    ? parsedData.domicilioEntrega
    : this.extractClientName(email.sender, email.subject);
  \<close>
\<close>

definition cliente :: "SolicitudParsed \<Rightarrow> ProcessedEmail \<Rightarrow> error + jsstring" where
  "cliente parsedData email =
     (if domicilioEntrega parsedData \<noteq> no_especificada then Inr (domicilioEntrega parsedData)
      else extractClientName (sender email) (subject email))"

text \<open>The record handed to the ledger, from the parsed document and the message.\<close>

definition solicitudData :: "SolicitudParsed \<Rightarrow> ProcessedEmail \<Rightarrow> error + SolicitudData" where
  "solicitudData parsedData email =
     (case extractAmountFromSubject (subject email) of
        Inl e \<Rightarrow> Inl e
      | Inr cantidad_text \<Rightarrow>
     (case extractCityFromSubject (subject email) of
        Inl e \<Rightarrow> Inl e
      | Inr ciudad_text \<Rightarrow>
     (case cliente parsedData email of
        Inl e \<Rightarrow> Inl e
      | Inr c \<Rightarrow>
          Inr \<lparr>fecha = formatShortDate (receivedAt email),
               operador = c,
               sucursal = (if ciudad_text = [] then no_especificada else ciudad_text),
               monto = (if cantidad_text = [] then no_especificada else cantidad_text),
               link = generateGmailLink (messageId email),
               solicitudMessageId = messageId email\<rparr>)))"

text \<open>The issuer name that reaches the ledger for a document text and a message.\<close>

definition issuer :: "jsstring \<Rightarrow> ProcessedEmail \<Rightarrow> error + jsstring" where
  "issuer text email =
     (case extractDataFromText text of
        Inl e \<Rightarrow> Inl e
      | Inr parsedData \<Rightarrow> cliente parsedData email)"

text \<open>An example message.\<close>

definition example_email :: ProcessedEmail where
  "example_email =
     \<lparr>messageId = js ''m1'', subject = js ''Solicitud de servicio'',
      sender = js ''Juan Perez <juan@acme.mx>'', receivedAt = Some (24, 5),
      attachments = pdfAttachments example_attachments\<rparr>"

subsection \<open>processEmail and checkAndProcessEmails\<close>

text \<open>The state of the pipeline: the watcher, the ledger writer, and the messages that
  \<^verbatim>\<open>markAsProcessed\<close> has been called for with a Gmail client present.\<close>

record pipeline =
  watcher :: GmailWatcher
  excelWriter :: ExcelWriter
  marked :: "jsstring list"

text \<open>
  The body of the \<^verbatim>\<open>try\<close> block for one attachment: download, parse, assemble,
  append, mark. The first component is what the body throws, if anything.
\<close>

definition attachment_body ::
  "'buf env \<Rightarrow> ProcessedEmail \<Rightarrow> GmailAttachment \<Rightarrow> pipeline \<Rightarrow> error option \<times> pipeline" where
  "attachment_body e email attachment st =
     (case downloadAttachment e (watcher st) (messageId email) (attachmentId attachment) of
        Inl err \<Rightarrow> (Some err, st)
      | Inr pdfBuffer \<Rightarrow>
     (case parsePDF (pdfParse e) pdfBuffer of
        Inl err \<Rightarrow> (Some err, st)
      | Inr parsedData \<Rightarrow>
     (case solicitudData parsedData email of
        Inl err \<Rightarrow> (Some err, st)
      | Inr solicitud \<Rightarrow>
     (case appendSolicitud (writeFile e) (excelWriter st) solicitud of
        (Some err, xw) \<Rightarrow> (Some err, st\<lparr>excelWriter := xw\<rparr>)
      | (None, xw) \<Rightarrow>
          (case markAsProcessed (watcher st) (messageId email) of
             Some err \<Rightarrow> (Some err, st\<lparr>excelWriter := xw\<rparr>)
           | None \<Rightarrow>
               (None, st\<lparr>excelWriter := xw, marked := marked st @ [messageId email]\<rparr>))))))"

text \<open>The loop over the sorted attachments; the \<^verbatim>\<open>catch\<close> of each round logs what
  the body threw and the loop goes on.\<close>

fun attachments_loop ::
  "'buf env \<Rightarrow> ProcessedEmail \<Rightarrow> GmailAttachment list \<Rightarrow> pipeline \<Rightarrow> pipeline" where
  "attachments_loop e email [] st = st"
| "attachments_loop e email (attachment # rest) st =
     attachments_loop e email rest (snd (attachment_body e email attachment st))"

definition processEmail :: "'buf env \<Rightarrow> ProcessedEmail \<Rightarrow> pipeline \<Rightarrow> pipeline" where
  "processEmail e email st =
     attachments_loop e email (sortedAttachments (attachments email)) st"

text \<open>The loop of \<^verbatim>\<open>checkAndProcessEmails\<close> over the emails of one poll.\<close>

fun emails_loop :: "'buf env \<Rightarrow> ProcessedEmail list \<Rightarrow> pipeline \<Rightarrow> pipeline" where
  "emails_loop e [] st = st"
| "emails_loop e (email # rest) st = emails_loop e rest (processEmail e email st)"

text \<open>\<^verbatim>\<open>checkAndProcessEmails\<close>: what \<^verbatim>\<open>checkForNewMessages\<close> throws is caught and
  logged.\<close>

definition checkAndProcessEmails :: "'buf env \<Rightarrow> pipeline \<Rightarrow> pipeline" where
  "checkAndProcessEmails e st =
     (case checkForNewMessages e (watcher st) of
        (Inl err, w) \<Rightarrow> st\<lparr>watcher := w\<rparr>
      | (Inr emails, w) \<Rightarrow> emails_loop e emails (st\<lparr>watcher := w\<rparr>))"

text \<open>A run of the process: one poll after the other, each in the world of its time.\<close>

fun polls :: "'buf env list \<Rightarrow> pipeline \<Rightarrow> pipeline" where
  "polls [] st = st"
| "polls (e # es) st = polls es (checkAndProcessEmails e st)"

text \<open>
  An example world: three messages m1, m2, m3, each with one PDF attachment; the download
  for m2 fails; every document reads "CAZAN"; every save succeeds. The buffers are the
  message ids.
\<close>

definition example_env :: "jsstring env" where
  "example_env =
     \<lparr>listMessages = Inr [Some (js ''m1''), Some (js ''m2''), Some (js ''m3'')],
      broadQueries = None,
      getMessage = (\<lambda>mid. Inr \<lparr>rawSubject = js ''$5'', rawSender = js ''a@b.mx'',
                                    rawDate = Some (24, 5),
                                    rawAttachments = example_attachments\<rparr>),
      download = (\<lambda>mid aid. if mid = js ''m2'' then Inl DownloadError else Inr mid),
      pdfParse = (\<lambda>buf. Inr (js ''CAZAN'')),
      writeFile = (\<lambda>ws. True)\<rparr>"

definition example_pipeline :: pipeline where
  "example_pipeline =
     \<lparr>watcher = \<lparr>gmailReady = True, processedMessages = {}\<rparr>,
      excelWriter = example_writer, marked = []\<rparr>"

definition example_batch :: "ProcessedEmail list" where
  "example_batch =
     map (\<lambda>mid. \<lparr>messageId = mid, subject = js ''$5'', sender = js ''a@b.mx'',
                   receivedAt = Some (24, 5),
                   attachments = pdfAttachments example_attachments\<rparr>)
       [js ''m1'', js ''m2'', js ''m3'']"


section \<open>The retry wrapper (src/gmail/watcher.ts, retryOperation)\<close>

text \<open>
  The wrapped operation is a nullary asynchronous closure. It is modelled by a state
  transformer: called in state \<open>s\<close> it either throws (\<open>Inl e\<close>) or returns
  (\<open>Inr v\<close>), and leaves a new state. The wrapper's observable effects are recorded in
  a trace: every invocation of the operation and every wait of
  \<open>config.errorHandling.retryDelayMs\<close> milliseconds.
\<close>

type_synonym ('s, 'e, 'a) operation = "'s \<Rightarrow> ('e + 'a) \<times> 's"

datatype event = Invoke | Wait nat

datatype 'e retry_error = Thrown 'e | MaxRetriesExceeded

text \<open>
  \<^verbatim>\<open>
  for (let i = 0; i < maxRetries; i++) {
    try { return await operation(); }
    catch (error) {
      if (i === maxRetries - 1) { throw error; }
      await new Promise(resolve => setTimeout(resolve, config.errorHandling.retryDelayMs));
    }
  }
  throw new Error('Max retries exceeded');
  \<close>
  \<open>retry_loop\<close> is the loop from counter \<open>i\<close> on; \<open>maxRetries\<close> ranges over the
  integers (the configuration reads it with \<open>parseInt\<close>).
\<close>

function retry_loop ::
  "('s, 'e, 'a) operation \<Rightarrow> int \<Rightarrow> nat \<Rightarrow> int \<Rightarrow> 's \<Rightarrow> event list
     \<Rightarrow> ('e retry_error + 'a) \<times> 's \<times> event list" where
  "retry_loop operation maxRetries retryDelayMs i s tr =
     (if i < maxRetries then
        (case operation s of
           (Inr v, s') \<Rightarrow> (Inr v, s', tr @ [Invoke])
         | (Inl e, s') \<Rightarrow>
             if i = maxRetries - 1 then (Inl (Thrown e), s', tr @ [Invoke])
             else retry_loop operation maxRetries retryDelayMs (i + 1) s'
                    (tr @ [Invoke, Wait retryDelayMs]))
      else (Inl MaxRetriesExceeded, s, tr))"
  by pat_completeness auto
termination
  by (relation "measure (\<lambda>(operation, maxRetries, retryDelayMs, i, s, tr). nat (maxRetries - i))")
     auto

definition retryOperation ::
  "('s, 'e, 'a) operation \<Rightarrow> int \<Rightarrow> nat \<Rightarrow> 's \<Rightarrow> ('e retry_error + 'a) \<times> 's \<times> event list" where
  "retryOperation operation maxRetries retryDelayMs s =
     retry_loop operation maxRetries retryDelayMs 0 s []"

text \<open>The state after the first \<open>k\<close> invocations, and the outcome of invocation \<open>k + 1\<close>.\<close>

fun state_after :: "('s, 'e, 'a) operation \<Rightarrow> 's \<Rightarrow> nat \<Rightarrow> 's" where
  "state_after operation s 0 = s"
| "state_after operation s (Suc k) = snd (operation (state_after operation s k))"

definition outcome :: "('s, 'e, 'a) operation \<Rightarrow> 's \<Rightarrow> nat \<Rightarrow> 'e + 'a" where
  "outcome operation s k = fst (operation (state_after operation s k))"

text \<open>The trace of \<open>k\<close> failed invocations, each followed by a wait.\<close>

definition failed_rounds :: "nat \<Rightarrow> nat \<Rightarrow> event list" where
  "failed_rounds d k = concat (replicate k [Invoke, Wait d])"

definition invocations :: "event list \<Rightarrow> nat" where
  "invocations tr = length (filter (\<lambda>ev. ev = Invoke) tr)"

definition delays :: "event list \<Rightarrow> nat" where
  "delays tr = length (filter (\<lambda>ev. ev \<noteq> Invoke) tr)"

text \<open>An example operation: the state counts the invocations made so far; the first
  \<open>n\<close> invocations throw their own number, every later one returns \<open>v\<close>.\<close>

definition fails_then :: "nat \<Rightarrow> 'a \<Rightarrow> (nat, nat, 'a) operation" where
  "fails_then n v c = (if c < n then Inl (Suc c) else Inr v, Suc c)"


section \<open>Properties of the matcher\<close>

lemma clear_length [simp]: "length (clear ks caps) = length caps"
  by (induction ks arbitrary: caps) simp_all

lemma clear_nth: "k \<notin> set ks \<Longrightarrow> clear ks caps ! k = caps ! k"
  by (induction ks arbitrary: caps) simp_all

lemma rmatch_Rep_cases:
  assumes "s' \<in> set (rmatch f (Rep mn mx g a) (p, rest, caps))"
  shows "s' = (p, rest, caps) \<or>
         (mx \<noteq> Some 0 \<and>
          (\<exists>x. x \<in> set (filter (\<lambda>s'. mn \<noteq> 0 \<or> length (fst (snd s')) < length rest)
                          (rmatch f a (p, rest, clear (groups_of a) caps))) \<and>
               s' \<in> set (rmatch f (Rep (mn - 1) (map_option (\<lambda>m. m - 1) mx) g a) x)))"
proof (cases "mx = Some 0")
  case True
  with assms show ?thesis by (simp add: rmatch.simps(6))
next
  case False
  with assms show ?thesis
    by (simp only: rmatch.simps(6) Let_def split: if_splits)
       (simp_all only: set_concat set_map set_append set_simps UN_iff Un_iff insert_iff
          empty_iff image_iff bex_simps, blast+)
qed

lemma rmatch_length:
  "s' \<in> set (rmatch f r s) \<Longrightarrow> length (snd (snd s')) = length (snd (snd s))"
proof (induction f r s arbitrary: s' rule: rmatch.induct)
  case (1 f A p rest caps)
  then show ?case by (auto simp: rmatch.simps(1) split: list.splits if_splits)
next
  case (2 f p rest caps)
  then show ?case by (auto simp: rmatch.simps(2) split: list.splits if_splits)
next
  case (3 f p rest caps)
  then show ?case by (simp add: rmatch.simps(3))
next
  case (4 f a b p rest caps)
  from "4.prems" obtain x where x: "x \<in> set (rmatch f a (p, rest, caps))"
    and s': "s' \<in> set (rmatch f b x)"
    by (auto simp: rmatch.simps(4))
  from "4.IH"(1) [OF x] "4.IH"(2) [OF x s'] show ?case by simp
next
  case (5 f a b p rest caps)
  from "5.prems" have "s' \<in> set (rmatch f a (p, rest, caps)) \<or> s' \<in> set (rmatch f b (p, rest, caps))"
    by (simp add: rmatch.simps(5))
  with "5.IH" show ?case by blast
next
  case (6 f mn mx g a p rest caps)
  from rmatch_Rep_cases [OF "6.prems"] show ?case
  proof
    assume "s' = (p, rest, caps)"
    then show ?thesis by simp
  next
    assume "mx \<noteq> Some 0 \<and>
          (\<exists>x. x \<in> set (filter (\<lambda>s'. mn \<noteq> 0 \<or> length (fst (snd s')) < length rest)
                          (rmatch f a (p, rest, clear (groups_of a) caps))) \<and>
               s' \<in> set (rmatch f (Rep (mn - 1) (map_option (\<lambda>m. m - 1) mx) g a) x))"
    then obtain x where mx: "mx \<noteq> Some 0"
      and xf: "x \<in> set (filter (\<lambda>s'. mn \<noteq> 0 \<or> length (fst (snd s')) < length rest)
                          (rmatch f a (p, rest, clear (groups_of a) caps)))"
      and s': "s' \<in> set (rmatch f (Rep (mn - 1) (map_option (\<lambda>m. m - 1) mx) g a) x)"
      by blast
    from xf have x: "x \<in> set (rmatch f a (p, rest, clear (groups_of a) caps))" by simp
    from "6.IH"(1) [OF mx x] "6.IH"(2) [OF mx xf s'] show ?thesis by simp
  qed
next
  case (7 f k a p rest caps)
  from "7.prems" obtain x where x: "x \<in> set (rmatch f a (p, rest, caps))"
    and s': "snd (snd s') = (snd (snd x))[k := Some (take (length rest - length (fst (snd x))) rest)]"
    by (auto simp: rmatch.simps(7))
  from "7.IH" [OF x] s' show ?case by simp
next
  case (8 f p rest caps)
  then show ?case by (auto simp: rmatch.simps(8) split: option.splits if_splits)
next
  case (9 f p rest caps)
  then show ?case by (auto simp: rmatch.simps(9) split: list.splits if_splits)
next
  case (10 f p rest caps)
  then show ?case by (auto simp: rmatch.simps(10) split: if_splits)
next
  case (11 f a p rest caps)
  from "11.prems" obtain x xs where x: "rmatch f a (p, rest, caps) = x # xs"
    and s': "s' = (p, rest, snd (snd x))"
    by (cases "rmatch f a (p, rest, caps)") (simp_all add: rmatch.simps(11))
  from x have "x \<in> set (rmatch f a (p, rest, caps))" by simp
  from "11.IH" [OF this] s' show ?case by simp
qed

lemma rmatch_preserves:
  "s' \<in> set (rmatch f r s) \<Longrightarrow> k \<notin> set (groups_of r) \<Longrightarrow>
     snd (snd s') ! k = snd (snd s) ! k"
proof (induction f r s arbitrary: s' rule: rmatch.induct)
  case (1 f A p rest caps)
  then show ?case by (auto simp: rmatch.simps(1) split: list.splits if_splits)
next
  case (2 f p rest caps)
  then show ?case by (auto simp: rmatch.simps(2) split: list.splits if_splits)
next
  case (3 f p rest caps)
  then show ?case by (simp add: rmatch.simps(3))
next
  case (4 f a b p rest caps)
  from "4.prems" obtain x where x: "x \<in> set (rmatch f a (p, rest, caps))"
    and s': "s' \<in> set (rmatch f b x)"
    by (auto simp: rmatch.simps(4))
  from "4.prems"(2) have "k \<notin> set (groups_of a)" "k \<notin> set (groups_of b)" by simp_all
  with "4.IH"(1) [OF x] "4.IH"(2) [OF x s'] show ?case by simp
next
  case (5 f a b p rest caps)
  from "5.prems" have "s' \<in> set (rmatch f a (p, rest, caps)) \<or> s' \<in> set (rmatch f b (p, rest, caps))"
    by (simp add: rmatch.simps(5))
  moreover from "5.prems"(2) have "k \<notin> set (groups_of a)" "k \<notin> set (groups_of b)" by simp_all
  ultimately show ?case using "5.IH" by blast
next
  case (6 f mn mx g a p rest caps)
  from "6.prems"(2) have k: "k \<notin> set (groups_of a)" by simp
  from rmatch_Rep_cases [OF "6.prems"(1)] show ?case
  proof
    assume "s' = (p, rest, caps)"
    then show ?thesis by simp
  next
    assume "mx \<noteq> Some 0 \<and>
          (\<exists>x. x \<in> set (filter (\<lambda>s'. mn \<noteq> 0 \<or> length (fst (snd s')) < length rest)
                          (rmatch f a (p, rest, clear (groups_of a) caps))) \<and>
               s' \<in> set (rmatch f (Rep (mn - 1) (map_option (\<lambda>m. m - 1) mx) g a) x))"
    then obtain x where mx: "mx \<noteq> Some 0"
      and xf: "x \<in> set (filter (\<lambda>s'. mn \<noteq> 0 \<or> length (fst (snd s')) < length rest)
                          (rmatch f a (p, rest, clear (groups_of a) caps)))"
      and s': "s' \<in> set (rmatch f (Rep (mn - 1) (map_option (\<lambda>m. m - 1) mx) g a) x)"
      by blast
    from xf have x: "x \<in> set (rmatch f a (p, rest, clear (groups_of a) caps))" by simp
    have k': "k \<notin> set (groups_of (Rep (mn - 1) (map_option (\<lambda>m. m - 1) mx) g a))"
      using k by simp
    from "6.IH"(1) [OF mx x k] "6.IH"(2) [OF mx xf s' k'] show ?thesis
      by (simp add: clear_nth [OF k])
  qed
next
  case (7 f j a p rest caps)
  from "7.prems" obtain x where x: "x \<in> set (rmatch f a (p, rest, caps))"
    and s': "snd (snd s') = (snd (snd x))[j := Some (take (length rest - length (fst (snd x))) rest)]"
    by (auto simp: rmatch.simps(7))
  from "7.prems"(2) have "j \<noteq> k" "k \<notin> set (groups_of a)" by auto
  with "7.IH" [OF x] s' show ?case by simp
next
  case (8 f p rest caps)
  then show ?case by (auto simp: rmatch.simps(8) split: option.splits if_splits)
next
  case (9 f p rest caps)
  then show ?case by (auto simp: rmatch.simps(9) split: list.splits if_splits)
next
  case (10 f p rest caps)
  then show ?case by (auto simp: rmatch.simps(10) split: if_splits)
next
  case (11 f a p rest caps)
  from "11.prems" obtain x xs where x: "rmatch f a (p, rest, caps) = x # xs"
    and s': "s' = (p, rest, snd (snd x))"
    by (cases "rmatch f a (p, rest, caps)") (simp_all add: rmatch.simps(11))
  from x have "x \<in> set (rmatch f a (p, rest, caps))" by simp
  from "11.IH" [OF this] "11.prems"(2) s' show ?case by simp
qed

lemma rmatch_always_sets:
  "s' \<in> set (rmatch f r s) \<Longrightarrow> always_sets k r \<Longrightarrow> k < length (snd (snd s)) \<Longrightarrow>
     snd (snd s') ! k \<noteq> None"
proof (induction f r s arbitrary: s' rule: rmatch.induct)
  case (4 f a b p rest caps)
  from "4.prems" obtain x where x: "x \<in> set (rmatch f a (p, rest, caps))"
    and s': "s' \<in> set (rmatch f b x)"
    by (auto simp: rmatch.simps(4))
  have len: "k < length (snd (snd x))"
    using rmatch_length [OF x] "4.prems"(3) by simp
  from "4.prems"(2) consider "always_sets k a" "k \<notin> set (groups_of b)" | "always_sets k b"
    by auto
  then show ?case
  proof cases
    case 1
    from "4.IH"(1) [OF x 1(1) "4.prems"(3)] rmatch_preserves [OF s' 1(2)]
    show ?thesis by simp
  next
    case 2
    from "4.IH"(2) [OF x s' 2 len] show ?thesis .
  qed
next
  case (5 f a b p rest caps)
  from "5.prems" have "s' \<in> set (rmatch f a (p, rest, caps)) \<or> s' \<in> set (rmatch f b (p, rest, caps))"
    by (simp add: rmatch.simps(5))
  moreover from "5.prems"(2) have "always_sets k a" "always_sets k b" by simp_all
  ultimately show ?case using "5.IH" "5.prems"(3) by blast
next
  case (7 f j a p rest caps)
  from "7.prems" obtain x where x: "x \<in> set (rmatch f a (p, rest, caps))"
    and s': "snd (snd s') = (snd (snd x))[j := Some (take (length rest - length (fst (snd x))) rest)]"
    by (auto simp: rmatch.simps(7))
  have len: "k < length (snd (snd x))"
    using rmatch_length [OF x] "7.prems"(3) by simp
  show ?case
  proof (cases "j = k")
    case True
    with s' len show ?thesis by simp
  next
    case False
    with "7.prems"(2) have "always_sets k a" by simp
    from "7.IH" [OF x this "7.prems"(3)] s' False show ?thesis by simp
  qed
next
  case (11 f a p rest caps)
  from "11.prems" obtain x xs where x: "rmatch f a (p, rest, caps) = x # xs"
    and s': "s' = (p, rest, snd (snd x))"
    by (cases "rmatch f a (p, rest, caps)") (simp_all add: rmatch.simps(11))
  from x have "x \<in> set (rmatch f a (p, rest, caps))" by simp
  from "11.IH" [OF this] "11.prems"(2,3) s' show ?case by simp
qed simp_all

lemma search_groups:
  assumes "search f r p s = Some m"
  shows "length m = Suc (ngroups r) \<and> m ! 0 \<noteq> None \<and>
         (\<forall>k. 0 < k \<and> k \<le> ngroups r \<and> always_sets k r \<longrightarrow> m ! k \<noteq> None)"
  using assms
proof (induction s arbitrary: p)
  case Nil
  then obtain s' ss where r: "rmatch f r (p, [], replicate (Suc (ngroups r)) None) = s' # ss"
    and m: "m = (snd (snd s'))[0 := Some []]"
    by (cases "rmatch f r (p, [], replicate (Suc (ngroups r)) None)") auto
  from r have mem: "s' \<in> set (rmatch f r (p, [], replicate (Suc (ngroups r)) None))" by simp
  have len: "length (snd (snd s')) = Suc (ngroups r)"
    using rmatch_length [OF mem] by simp
  have "snd (snd s') ! k \<noteq> None" if "0 < k" "k \<le> ngroups r" "always_sets k r" for k
    using rmatch_always_sets [OF mem that(3)] that(2) by simp
  with m len show ?case by simp
next
  case (Cons c cs)
  show ?case
  proof (cases "rmatch f r (p, c # cs, replicate (Suc (ngroups r)) None)")
    case Nil
    with Cons.prems have "search f r (Some c) cs = Some m" by simp
    from Cons.IH [OF this] show ?thesis .
  next
    case (Cons s' ss)
    with Cons.prems
    have m: "m = (snd (snd s'))[0 := Some (take (length (c # cs) - length (fst (snd s'))) (c # cs))]"
      by simp
    from Cons have mem: "s' \<in> set (rmatch f r (p, c # cs, replicate (Suc (ngroups r)) None))"
      by simp
    have len: "length (snd (snd s')) = Suc (ngroups r)"
      using rmatch_length [OF mem] by simp
    have "snd (snd s') ! k \<noteq> None" if "0 < k" "k \<le> ngroups r" "always_sets k r" for k
      using rmatch_always_sets [OF mem that(3)] that(2) by simp
    with m len show ?thesis by simp
  qed
qed

lemma match_whole_defined:
  "str_match s f r = Some m \<Longrightarrow> \<exists>v. defined (group_at m 0) = Inr v"
  using search_groups [of f r None s m]
  by (auto simp: str_match_def group_at_def defined_def split: option.splits)

lemma match_group_defined:
  "str_match s f r = Some m \<Longrightarrow> always_sets k r \<Longrightarrow> 0 < k \<Longrightarrow> k \<le> ngroups r \<Longrightarrow>
     \<exists>v. defined (group_at m k) = Inr v"
  using search_groups [of f r None s m]
  by (auto simp: str_match_def group_at_def defined_def split: option.splits)

section \<open>Properties of the PDF parser\<close>

lemmas rx_defs = js_def str_match_def lit_def units_def cu_def ch_def many_def many1_def
  lazy_many1_def opt_def at_least_def exactly_def wsp_def digit_def class_match_def
  no_flags_def flag_i_def flag_m_def space_ranges_def digit_ranges_def word_ranges_def
  isWordChar_def isLineTerminator_def isWhiteSpace_def isDigit_def at_word_boundary_def
  ngroups_def group_at_def defined_def upper_unit_def lower_unit_def trim_def
  toUpperCase_def toLowerCase_def remove_commas_def rmatch.simps

lemmas pattern_defs = legal_suffix_def companyName_def knownCompanies_def
  specificCompanies_def fullCompanyName_def companyLinePattern_def amount_group_def
  amountPatterns_def cityPatterns_def locationPattern_def letters_and_space_def
  capital_def small_def

subsection \<open>No pattern leaves its first group undefined\<close>

lemma groups_companyName: "always_sets 1 companyName \<and> 1 \<le> ngroups companyName"
  by (simp add: rx_defs pattern_defs)

lemma groups_knownCompanies: "always_sets 1 knownCompanies \<and> 1 \<le> ngroups knownCompanies"
  by (simp add: rx_defs pattern_defs)

lemma groups_specificCompanies:
  "always_sets 1 specificCompanies \<and> 1 \<le> ngroups specificCompanies"
  by (simp add: rx_defs pattern_defs)

lemma groups_companyLinePattern:
  "always_sets 1 companyLinePattern \<and> 1 \<le> ngroups companyLinePattern"
  by (simp add: rx_defs pattern_defs)

lemma groups_amountPatterns:
  "list_all (\<lambda>(f, r). always_sets 1 r \<and> 1 \<le> ngroups r) amountPatterns"
  by (simp add: rx_defs pattern_defs)

lemma groups_cityPatterns:
  "list_all (\<lambda>(f, r). always_sets 1 r \<and> 1 \<le> ngroups r) cityPatterns"
  by (simp add: rx_defs pattern_defs)

lemma groups_locationPattern: "always_sets 1 locationPattern \<and> 1 \<le> ngroups locationPattern"
  by (simp add: rx_defs pattern_defs)

lemma group_text_defined:
  "defined (group_at m k) = Inr v \<Longrightarrow> group_text m k = v"
  by (simp add: defined_def group_text_def split: option.splits)

subsection \<open>The loops of extractCompanyName\<close>

lemma first_hit_Nil: "first_hit strategy [] = None"
  by (simp add: first_hit_def)

lemma first_hit_Cons:
  "first_hit strategy (x # xs) =
     (case strategy x of None \<Rightarrow> first_hit strategy xs | Some v \<Rightarrow> Some v)"
  by (simp add: first_hit_def split: option.splits)

lemma full_name_loop_eq:
  "full_name_loop lines = map_option Inr (first_hit brand_with_suffix lines)"
proof (induction lines)
  case Nil
  show ?case by (simp add: first_hit_Nil)
next
  case (Cons line lines)
  show ?case
  proof (cases "str_match line flag_i fullCompanyName")
    case None
    with Cons show ?thesis by (simp add: first_hit_Cons brand_with_suffix_def)
  next
    case (Some m)
    from match_whole_defined [OF Some] obtain v where v: "defined (group_at m 0) = Inr v" ..
    with Some show ?thesis
      by (simp add: first_hit_Cons brand_with_suffix_def group_text_defined [OF v] del: One_nat_def)
  qed
qed

lemma company_line_loop_eq:
  "company_line_loop lines = map_option Inr (first_hit uppercase_line lines)"
proof (induction lines)
  case Nil
  show ?case by (simp add: first_hit_Nil)
next
  case (Cons line lines)
  show ?case
  proof (cases "str_match line no_flags companyLinePattern")
    case None
    with Cons show ?thesis by (simp add: first_hit_Cons uppercase_line_def)
  next
    case (Some m)
    from match_group_defined [OF Some, of 1] groups_companyLinePattern
    obtain v where v: "defined (group_at m 1) = Inr v" by auto
    with Some Cons show ?thesis
      by (simp add: first_hit_Cons uppercase_line_def group_text_defined [OF v] del: One_nat_def)
  qed
qed

lemma specific_loop_eq:
  "specific_loop lines = map_option Inr (first_hit brand_alone lines)"
proof (induction lines)
  case Nil
  show ?case by (simp add: first_hit_Nil)
next
  case (Cons line lines)
  show ?case
  proof (cases "str_match line flag_i specificCompanies")
    case None
    with Cons show ?thesis by (simp add: first_hit_Cons brand_alone_def)
  next
    case (Some m)
    from match_group_defined [OF Some, of 1] groups_specificCompanies
    obtain v where v: "defined (group_at m 1) = Inr v" by auto
    with Some Cons show ?thesis
      by (simp add: first_hit_Cons brand_alone_def group_text_defined [OF v] del: One_nat_def)
  qed
qed

lemma known_loop_eq:
  "known_loop lines = map_option Inr (first_hit corporate_keyword lines)"
proof (induction lines)
  case Nil
  show ?case by (simp add: first_hit_Nil)
next
  case (Cons line lines)
  show ?case
  proof (cases "str_match line flag_i knownCompanies")
    case None
    with Cons show ?thesis by (simp add: first_hit_Cons corporate_keyword_def)
  next
    case (Some m)
    from match_group_defined [OF Some, of 1] groups_knownCompanies
    obtain v where v: "defined (group_at m 1) = Inr v" by auto
    with Some Cons show ?thesis
      by (simp add: first_hit_Cons corporate_keyword_def group_text_defined [OF v] del: One_nat_def)
  qed
qed

lemma uppercase_loop_eq:
  "uppercase_loop lines = map_option Inr (first_hit uppercase_run lines)"
proof (induction lines)
  case Nil
  show ?case by (simp add: first_hit_Nil)
next
  case (Cons line lines)
  show ?case
  proof (cases "str_match (trim line) flag_m companyName")
    case None
    with Cons show ?thesis by (simp add: first_hit_Cons uppercase_run_def)
  next
    case (Some m)
    from match_group_defined [OF Some, of 1] groups_companyName
    obtain v where v: "defined (group_at m 1) = Inr v" by auto
    with Some Cons show ?thesis
      by (simp add: first_hit_Cons uppercase_run_def group_text_defined [OF v] del: One_nat_def)
  qed
qed

lemma global_match_eq:
  "(case str_match text flag_i specificCompanies of
      Some globalMatch \<Rightarrow>
        (case defined (group_at globalMatch 1) of
           Inl e \<Rightarrow> Inl e
         | Inr m1 \<Rightarrow> Inr (toUpperCase m1))
    | None \<Rightarrow> Inr unidentified) =
   Inr (case brand_alone text of None \<Rightarrow> unidentified | Some name \<Rightarrow> name)"
proof (cases "str_match text flag_i specificCompanies")
  case None
  then show ?thesis by (simp add: brand_alone_def)
next
  case (Some m)
  from match_group_defined [OF Some, of 1] groups_specificCompanies
  obtain v where v: "defined (group_at m 1) = Inr v" by auto
  with Some show ?thesis
    by (simp add: brand_alone_def group_text_defined [OF v] del: One_nat_def)
qed

lemma extractCompanyName_eq:
  "extractCompanyName text = Inr (extractIssuer_spec text)"
proof -
  define lines where "lines = take 15 (split_on 10 text)"
  have five: "take (min 5 (length lines)) lines = take 5 lines"
    by (simp add: min_def)
  show ?thesis
    unfolding extractCompanyName_def extractIssuer_spec_def issuer_strategies_def Let_def
      lines_def [symmetric] five
      full_name_loop_eq company_line_loop_eq specific_loop_eq known_loop_eq
      uppercase_loop_eq global_match_eq
    by (simp add: first_hit_Cons first_hit_Nil split: option.splits)
qed


subsection \<open>The subject fields\<close>

lemma amount_loop_total:
  "list_all (\<lambda>(f, r). always_sets 1 r \<and> 1 \<le> ngroups r) patterns \<Longrightarrow>
     \<exists>v. amount_loop patterns subject_text = Inr v"
proof (induction patterns)
  case Nil
  show ?case by simp
next
  case (Cons fr patterns)
  obtain f r where fr: "fr = (f, r)" by (cases fr)
  show ?case
  proof (cases "str_match subject_text f r")
    case None
    with Cons fr show ?thesis by simp
  next
    case (Some m)
    from match_group_defined [OF Some, of 1] Cons.prems fr
    obtain v where v: "defined (group_at m 1) = Inr v" by auto
    with Some fr show ?thesis by simp
  qed
qed

lemma extractAmountFromSubject_total: "\<exists>v. extractAmountFromSubject subject_text = Inr v"
  unfolding extractAmountFromSubject_def
  by (rule amount_loop_total [OF groups_amountPatterns])

lemma city_loop_total:
  "list_all (\<lambda>(f, r). always_sets 1 r \<and> 1 \<le> ngroups r) patterns \<Longrightarrow>
     city_loop patterns subject_text = None \<or> (\<exists>v. city_loop patterns subject_text = Some (Inr v))"
proof (induction patterns)
  case Nil
  show ?case by simp
next
  case (Cons fr patterns)
  obtain f r where fr: "fr = (f, r)" by (cases fr)
  show ?case
  proof (cases "str_match subject_text f r")
    case None
    with Cons fr show ?thesis by simp
  next
    case (Some m)
    from match_group_defined [OF Some, of 1] Cons.prems fr
    obtain v where v: "defined (group_at m 1) = Inr v" by auto
    with Some fr show ?thesis by simp
  qed
qed

lemma extractCityFromSubject_total: "\<exists>v. extractCityFromSubject subject_text = Inr v"
proof (cases "city_loop cityPatterns subject_text")
  case None
  show ?thesis
  proof (cases "str_match subject_text flag_i locationPattern")
    case None
    with \<open>city_loop cityPatterns subject_text = None\<close> show ?thesis
      by (simp add: extractCityFromSubject_def)
  next
    case (Some m)
    from match_group_defined [OF Some, of 1] groups_locationPattern
    obtain v where v: "defined (group_at m 1) = Inr v" by auto
    with Some \<open>city_loop cityPatterns subject_text = None\<close> show ?thesis
      by (simp add: extractCityFromSubject_def)
  qed
next
  case (Some r)
  with city_loop_total [OF groups_cityPatterns, of subject_text] show ?thesis
    by (auto simp: extractCityFromSubject_def)
qed

text \<open>
  Claim C3, as stated: for the subject "Solicitud - Recurso Tabasco $1,500.00 - entrega"
  the extraction returns amount "1500.00" and city "Tabasco". The code returns another
  city.
\<close>

theorem subject_example_counterexample:
  "\<not> (extractAmountFromSubject example_subject = Inr (js ''1500.00'') \<and>
      extractCityFromSubject example_subject = Inr (js ''Tabasco''))"
  by (simp add: example_subject_def rx_defs pattern_defs extractCityFromSubject_def)

text \<open>
  Claim C3, amended. For the subject "Solicitud - Recurso Tabasco $1,500.00 - entrega"
  the extraction returns amount "1500.00", from the first amount pattern (a number after a
  currency symbol), and city "Solicitud": the labelled-field pattern does not match, and
  the second city pattern (a capitalised word sequence right before a hyphen, a currency
  marker or the end) matches the leading word "Solicitud", so the gazetteer pattern that
  would find "Tabasco" is never tried.
\<close>

theorem subject_example_amended:
  "extractAmountFromSubject example_subject = Inr (js ''1500.00'') \<and>
   amount_loop (take 1 amountPatterns) example_subject = Inr (js ''1500.00'') \<and>
   extractCityFromSubject example_subject = Inr (js ''Solicitud'') \<and>
   city_loop (take 1 cityPatterns) example_subject = None \<and>
   city_loop (take 2 cityPatterns) example_subject = Some (Inr (js ''Solicitud''))"
  by (simp add: example_subject_def rx_defs pattern_defs extractAmountFromSubject_def
        extractCityFromSubject_def)


section \<open>Properties of the ledger writer\<close>

text \<open>Initialisation leaves a worksheet with at least its header row.\<close>

lemma initialize_header:
  "\<exists>ws. worksheet (snd (initialize save loaded)) = Some ws \<and> rows ws \<noteq> []"
  by (cases loaded)
     (auto simp: initialize_def setupWorksheet_def Let_def rowCount_def addRow_def)

lemma example_writer_eq:
  "example_writer = \<lparr>worksheet = Some initial_worksheet, savedFile = Some initial_worksheet\<rparr>"
  by (simp add: example_writer_def initialize_def setupWorksheet_def Let_def rowCount_def
        addRow_def initial_worksheet_def)

lemma find_from_None: "(find_from rs m = None) = (filter (\<lambda>r. cvalue (getCell r 6) = CText m) rs = [])"
  by (induction rs) simp_all

lemma findExistingRow_None:
  "worksheet w = Some ws \<Longrightarrow>
     (findExistingRow w m = None) = (rows_with ws m = 0)"
  by (simp add: findExistingRow_def rows_with_def find_from_None)

lemma newRow_id: "cvalue (getCell (newRow s) 6) = CText (solicitudMessageId s)"
  by (simp add: newRow_def getCell_def text_cell_def)

lemma rows_createFilterableTable: "rows (createFilterableTable ws) = rows ws"
  by (simp add: createFilterableTable_def)

lemma rows_with_added:
  "rows ws \<noteq> [] \<Longrightarrow>
     rows_with (createFilterableTable (addRow ws (newRow s))) m =
       rows_with ws m + (if solicitudMessageId s = m then 1 else 0)"
proof -
  assume "rows ws \<noteq> []"
  then have "drop 1 (rows ws @ [newRow s]) = drop 1 (rows ws) @ [newRow s]"
    by (cases "rows ws") simp_all
  then show ?thesis
    by (simp add: rows_with_def rows_createFilterableTable addRow_def newRow_id
          del: One_nat_def)
qed

text \<open>What one append does to the writer, whatever the save does.\<close>

lemma appendSolicitud_worksheet:
  assumes "worksheet w = Some ws"
  shows "worksheet (snd (appendSolicitud save w s)) =
           Some (if rows_with ws (solicitudMessageId s) = 0
                 then createFilterableTable (addRow ws (newRow s)) else ws)"
proof (cases "rows_with ws (solicitudMessageId s) = 0")
  case True
  with assms have "findExistingRow w (solicitudMessageId s) = None"
    by (simp add: findExistingRow_None)
  with assms True show ?thesis
    by (simp add: appendSolicitud_def Let_def)
next
  case False
  with assms obtain r where "findExistingRow w (solicitudMessageId s) = Some r"
    using findExistingRow_None [OF assms, of "solicitudMessageId s"] by auto
  with assms False show ?thesis
    by (simp add: appendSolicitud_def)
qed

lemma appendSolicitud_step:
  assumes "worksheet w = Some ws" and "rows ws \<noteq> []"
  shows "\<exists>ws'. worksheet (snd (appendSolicitud save w s)) = Some ws' \<and> rows ws' \<noteq> [] \<and>
           (\<forall>m. rows_with ws' m =
              (if m = solicitudMessageId s \<and> rows_with ws m = 0 then 1 else rows_with ws m))"
proof (cases "rows_with ws (solicitudMessageId s) = 0")
  case True
  have "rows (createFilterableTable (addRow ws (newRow s))) \<noteq> []"
    by (simp add: rows_createFilterableTable addRow_def)
  with appendSolicitud_worksheet [OF assms(1), of save s] assms(2) True show ?thesis
    by (simp add: rows_with_added)
next
  case False
  with appendSolicitud_worksheet [OF assms(1), of save s] assms(2) show ?thesis
    by auto
qed

lemma appends_invariant:
  assumes "worksheet w = Some ws" and "rows ws \<noteq> []" and "\<forall>m. rows_with ws m \<le> 1"
  shows "\<exists>ws'. worksheet (appends w ops) = Some ws' \<and> rows ws' \<noteq> [] \<and>
           (\<forall>m. rows_with ws' m \<le> 1)"
  using assms
proof (induction ops arbitrary: w ws)
  case Nil
  then show ?case by simp
next
  case (Cons op ops)
  obtain save s where op: "op = (save, s)" by (cases op)
  from appendSolicitud_step [OF Cons.prems(1,2), of save s]
  obtain ws1 where ws1: "worksheet (snd (appendSolicitud save w s)) = Some ws1"
    "rows ws1 \<noteq> []"
    "\<forall>m. rows_with ws1 m =
        (if m = solicitudMessageId s \<and> rows_with ws m = 0 then 1 else rows_with ws m)"
    by blast
  from ws1(3) Cons.prems(3) have "\<forall>m. rows_with ws1 m \<le> 1" by simp
  from Cons.IH [OF ws1(1,2) this] show ?case by (simp add: op)
qed

lemma appends_same:
  assumes "worksheet w = Some ws" and "rows ws \<noteq> []"
    and "rows_with ws (solicitudMessageId s) = 1"
  shows "\<exists>ws'. worksheet (appends w (map (\<lambda>save. (save, s)) saves)) = Some ws' \<and>
           rows ws' = rows ws"
  using assms
proof (induction saves arbitrary: w)
  case Nil
  then show ?case by simp
next
  case (Cons save saves)
  from appendSolicitud_worksheet [OF Cons.prems(1), of save s] Cons.prems(3)
  have "worksheet (snd (appendSolicitud save w s)) = Some ws" by simp
  from Cons.IH [OF this Cons.prems(2,3)] show ?case by simp
qed

text \<open>
  Claim C1. Let the worksheet hold its header row, as initialisation leaves it. If a data
  row whose hidden column 6 equals the record's message id exists, the append writes
  nothing and returns the writer as it was: worksheet, rows and file unchanged. As a
  consequence a ledger with at most one row per message id still has at most one row per
  message id after any sequence of appends, whatever their saves do; and appending the
  same record any number of times, at least once, to a ledger without a row for it yields
  exactly one row for it.
\<close>

theorem appendSolicitud_idempotent:
  assumes "worksheet w = Some ws" and "rows ws \<noteq> []"
  shows "(0 < rows_with ws (solicitudMessageId s) \<longrightarrow>
            appendSolicitud save w s = (None, w)) \<and>
         ((\<forall>m. rows_with ws m \<le> 1) \<longrightarrow>
            (\<exists>ws'. worksheet (appends w ops) = Some ws' \<and> (\<forall>m. rows_with ws' m \<le> 1))) \<and>
         (rows_with ws (solicitudMessageId s) = 0 \<longrightarrow>
            (\<exists>ws'. worksheet (appends w (map (\<lambda>save. (save, s)) (first_save # saves))) = Some ws' \<and>
               rows_with ws' (solicitudMessageId s) = 1 \<and>
               rows ws' = rows ws @ [newRow s]))"
proof (intro conjI impI)
  assume "0 < rows_with ws (solicitudMessageId s)"
  with findExistingRow_None [OF assms(1), of "solicitudMessageId s"]
  obtain r where "findExistingRow w (solicitudMessageId s) = Some r" by auto
  with assms(1) show "appendSolicitud save w s = (None, w)"
    by (simp add: appendSolicitud_def)
next
  assume "\<forall>m. rows_with ws m \<le> 1"
  from appends_invariant [OF assms this, of ops]
  show "\<exists>ws'. worksheet (appends w ops) = Some ws' \<and> (\<forall>m. rows_with ws' m \<le> 1)"
    by blast
next
  assume zero: "rows_with ws (solicitudMessageId s) = 0"
  let ?ws1 = "createFilterableTable (addRow ws (newRow s))"
  from appendSolicitud_worksheet [OF assms(1), of first_save s] zero
  have w1: "worksheet (snd (appendSolicitud first_save w s)) = Some ?ws1" by simp
  have r1: "rows ?ws1 \<noteq> []" by (simp add: rows_createFilterableTable addRow_def)
  have c1: "rows_with ?ws1 (solicitudMessageId s) = 1"
    using zero assms(2) by (simp add: rows_with_added)
  from appends_same [OF w1 r1 c1, of saves]
  obtain ws' where ws': "worksheet (appends (snd (appendSolicitud first_save w s))
      (map (\<lambda>save. (save, s)) saves)) = Some ws'" "rows ws' = rows ?ws1"
    by blast
  from ws'(2) c1 have "rows_with ws' (solicitudMessageId s) = 1"
    by (simp add: rows_with_def)
  moreover from ws'(2) have "rows ws' = rows ws @ [newRow s]"
    by (simp add: rows_createFilterableTable addRow_def)
  ultimately
  show "\<exists>ws'. worksheet (appends w (map (\<lambda>save. (save, s)) (first_save # saves))) = Some ws' \<and>
               rows_with ws' (solicitudMessageId s) = 1 \<and> rows ws' = rows ws @ [newRow s]"
    using ws'(1) by simp
qed

theorem appendSolicitud_idempotent_witness:
  "worksheet example_writer = Some initial_worksheet \<and> rows initial_worksheet \<noteq> [] \<and>
   rows_with initial_worksheet (js ''m1'') = 0 \<and>
   (\<exists>ws'. worksheet (appends example_writer
              [(\<lambda>ws. True, example_solicitud (js ''1500.00'')),
               (\<lambda>ws. False, example_solicitud (js ''1500.00'')),
               (\<lambda>ws. True, example_solicitud (js ''1500.00''))]) = Some ws' \<and>
          rows_with ws' (js ''m1'') = 1 \<and>
          rows ws' = [header_row, newRow (example_solicitud (js ''1500.00''))]) \<and>
   appendSolicitud (\<lambda>ws. True)
     (snd (appendSolicitud (\<lambda>ws. True) example_writer (example_solicitud (js ''1500.00''))))
     (example_solicitud (js ''1500.00'')) =
   (None, snd (appendSolicitud (\<lambda>ws. True) example_writer (example_solicitud (js ''1500.00''))))"
proof -
  let ?s = "example_solicitud (js ''1500.00'')"
  have a: "worksheet example_writer = Some initial_worksheet"
    by (simp add: example_writer_eq)
  have b: "rows initial_worksheet \<noteq> []"
    by (simp add: initial_worksheet_def)
  have m: "solicitudMessageId ?s = js ''m1''"
    by (simp add: example_solicitud_def)
  have c: "rows_with initial_worksheet (js ''m1'') = 0"
    by (simp add: rows_with_def initial_worksheet_def)
  from appendSolicitud_idempotent [OF a b, where s = "?s" and first_save = "\<lambda>ws. True"
      and saves = "[\<lambda>ws. False, \<lambda>ws. True]"] c m
  have one: "\<exists>ws'. worksheet (appends example_writer
              [(\<lambda>ws. True, ?s), (\<lambda>ws. False, ?s), (\<lambda>ws. True, ?s)]) = Some ws' \<and>
          rows_with ws' (js ''m1'') = 1 \<and> rows ws' = [header_row, newRow ?s]"
    by (simp add: initial_worksheet_def)
  let ?w1 = "snd (appendSolicitud (\<lambda>ws. True) example_writer ?s)"
  let ?ws1 = "createFilterableTable (addRow initial_worksheet (newRow ?s))"
  have a1: "worksheet ?w1 = Some ?ws1"
    using appendSolicitud_worksheet [OF a, of "\<lambda>ws. True" ?s] c m by simp
  have b1: "rows ?ws1 \<noteq> []"
    by (simp add: rows_createFilterableTable addRow_def)
  have c1: "0 < rows_with ?ws1 (solicitudMessageId ?s)"
    using b by (simp add: rows_with_added)
  from appendSolicitud_idempotent [OF a1 b1, where s = "?s" and save = "\<lambda>ws. True"] c1
  have two: "appendSolicitud (\<lambda>ws. True) ?w1 ?s = (None, ?w1)"
    by blast
  from a b c one two show ?thesis by blast
qed

subsection \<open>The amount cell\<close>

lemma to_double_not_NaN: "to_double neg a b \<noteq> NaN"
  by (simp add: to_double_def Let_def)

lemma decimal_double_not_NaN: "decimal_double neg ip fp ex \<noteq> NaN"
  by (simp add: decimal_double_def Let_def to_double_not_NaN)

lemma unsigned_literal_NaN:
  "(unsigned_literal neg u = NaN) =
     (\<not> (case u of
            [] \<Rightarrow> False
          | d # ds \<Rightarrow>
              isDigit d \<or>
              (d = 46 \<and> (case ds of [] \<Rightarrow> False | d2 # ds2 \<Rightarrow> isDigit d2))))"
proof (cases u)
  case Nil
  then show ?thesis by (simp add: unsigned_literal_def)
next
  case (Cons d ds)
  show ?thesis
  proof (cases "isDigit d")
    case True
    with Cons show ?thesis
      by (simp add: unsigned_literal_def Let_def decimal_double_not_NaN split: list.splits)
  next
    case False
    note nd = this
    show ?thesis
    proof (cases "d = 46")
      case False
      with nd Cons show ?thesis by (simp add: unsigned_literal_def)
    next
      case True
      show ?thesis
      proof (cases ds)
        case Nil
        with True nd Cons show ?thesis by (simp add: unsigned_literal_def)
      next
        case (Cons d2 ds2)
        with True nd \<open>u = d # ds\<close> show ?thesis
          by (simp add: unsigned_literal_def Let_def decimal_double_not_NaN)
      qed
    qed
  qed
qed

lemma parseFloat_NaN: "(parseFloat t = NaN) = (\<not> has_decimal_prefix t)"
  by (simp add: parseFloat_def has_decimal_prefix_def Let_def unsigned_literal_NaN)

lemma no_prefix_empty: "\<not> has_decimal_prefix (cleanAmount [])"
  by (simp add: has_decimal_prefix_def cleanAmount_def trim_def js_def)

lemma no_prefix_sentinel: "\<not> has_decimal_prefix (cleanAmount no_especificada)"
  by (simp add: has_decimal_prefix_def cleanAmount_def trim_def js_def
        no_especificada_def isWhiteSpace_def isDigit_def space_ranges_def digit_ranges_def)

lemma montoCell_eq:
  "montoCell m =
     (if has_decimal_prefix (cleanAmount m)
      then \<lparr>cvalue = CNumber (parseFloat (cleanAmount m)), numFmt = Some accounting_format\<rparr>
      else text_cell m)"
  using no_prefix_empty no_prefix_sentinel
  by (auto simp: montoCell_def parseAmount_def Let_def parseFloat_NaN)

text \<open>Reading a plain decimal number, whatever follows it.\<close>

lemma digit_not_space: "isDigit c \<Longrightarrow> \<not> isWhiteSpace c"
  by (auto simp: isDigit_def isWhiteSpace_def digit_ranges_def space_ranges_def)

lemma digit_codes: "isDigit c \<Longrightarrow> c \<noteq> 45 \<and> c \<noteq> 43 \<and> c \<noteq> 46 \<and> c \<noteq> 73"
  by (auto simp: isDigit_def digit_ranges_def)

lemma takeWhile_digits:
  "list_all isDigit ds \<Longrightarrow> ends_number rest \<or> (\<exists>cs. rest = 46 # cs) \<Longrightarrow>
     takeWhile isDigit (ds @ rest) = ds \<and> dropWhile isDigit (ds @ rest) = rest"
proof (induction ds)
  case Nil
  then show ?case
    by (cases rest) (auto simp: ends_number_def isDigit_def digit_ranges_def)
next
  case (Cons d ds)
  then show ?case by simp
qed

lemma takeWhile_all: "list_all P xs \<Longrightarrow> takeWhile P xs = xs"
  by (simp add: list_all_iff)

lemma dropWhile_all: "list_all P xs \<Longrightarrow> dropWhile P xs = []"
  by (simp add: list_all_iff)

lemma exponent_part_ends: "ends_number rest \<Longrightarrow> exponent_part rest = 0"
  by (cases rest) (simp_all add: ends_number_def exponent_part_def)

lemma unsigned_literal_decimal:
  assumes "ip \<noteq> []" and "list_all isDigit ip" and "list_all isDigit fp" and "ends_number rest"
  shows "unsigned_literal neg (ip @ fraction_text fp @ rest) =
           to_double neg (digits_value (ip @ fp)) (10 ^ length fp)"
proof (cases "fp = []")
  case True
  have t: "takeWhile isDigit (ip @ rest) = ip \<and> dropWhile isDigit (ip @ rest) = rest"
    using takeWhile_digits [OF assms(2)] assms(4) by blast
  show ?thesis
  proof (cases rest)
    case Nil
    with True assms(1,2) show ?thesis
      by (simp add: unsigned_literal_def fraction_text_def Let_def decimal_double_def
            takeWhile_all dropWhile_all)
  next
    case (Cons c cs)
    with assms(4) have c: "c \<noteq> 46" by (simp add: ends_number_def)
    from t Cons have "takeWhile isDigit (ip @ c # cs) = ip"
      "dropWhile isDigit (ip @ c # cs) = c # cs" by simp_all
    with True c assms(1) Cons exponent_part_ends [OF assms(4)] show ?thesis
      by (simp add: unsigned_literal_def fraction_text_def Let_def decimal_double_def)
  qed
next
  case False
  have t: "takeWhile isDigit (ip @ 46 # fp @ rest) = ip \<and>
           dropWhile isDigit (ip @ 46 # fp @ rest) = 46 # fp @ rest"
    using takeWhile_digits [OF assms(2), of "46 # fp @ rest"] by blast
  have f: "takeWhile isDigit (fp @ rest) = fp \<and> dropWhile isDigit (fp @ rest) = rest"
    using takeWhile_digits [OF assms(3)] assms(4) by blast
  from False t f assms(1) exponent_part_ends [OF assms(4)] show ?thesis
    by (simp add: unsigned_literal_def fraction_text_def Let_def decimal_double_def)
qed

lemma parseFloat_decimal:
  assumes "sg = [] \<or> sg = [45] \<or> sg = [43]"
    and "ip \<noteq> []" and "list_all isDigit ip" and "list_all isDigit fp" and "ends_number rest"
  shows "has_decimal_prefix (sg @ ip @ fraction_text fp @ rest) \<and>
         parseFloat (sg @ ip @ fraction_text fp @ rest) =
           to_double (sg = [45]) (digits_value (ip @ fp)) (10 ^ length fp)"
proof -
  obtain d ds where ip: "ip = d # ds" using assms(2) by (cases ip) auto
  with assms(3) have d: "isDigit d" by simp
  note c = digit_not_space [OF d] digit_codes [OF d]
  have sp: "\<not> isWhiteSpace 45" "\<not> isWhiteSpace 43"
    by (simp_all add: isWhiteSpace_def space_ranges_def)
  let ?u = "ip @ fraction_text fp @ rest"
  have inf: "\<not> is_prefix (js ''Infinity'') ?u"
    using c by (simp add: ip js_def)
  have pf: "parseFloat (sg @ ?u) = unsigned_literal (sg = [45]) ?u"
    using assms(1) c sp inf by (auto simp: parseFloat_def Let_def ip)
  have "parseFloat (sg @ ?u) \<noteq> NaN"
    unfolding pf unsigned_literal_decimal [OF assms(2-5)] by (rule to_double_not_NaN)
  then have "has_decimal_prefix (sg @ ?u)" by (simp add: parseFloat_NaN)
  with pf unsigned_literal_decimal [OF assms(2-5)] show ?thesis by simp
qed

subsection \<open>Rounding to a double\<close>

lemma bit_length_bounds: "0 < n \<Longrightarrow> 2 ^ (bit_length n - 1) \<le> n \<and> n < 2 ^ bit_length n"
proof (induction n rule: bit_length.induct)
  case (1 n)
  show ?case
  proof (cases "n div 2 = 0")
    case True
    with "1.prems" have "n = 1" by (simp add: div_eq_0_iff)
    then show ?thesis by (simp add: bit_length.simps)
  next
    case False
    with "1.IH" "1.prems"
    have ih: "2 ^ (bit_length (n div 2) - 1) \<le> n div 2" "n div 2 < 2 ^ bit_length (n div 2)"
      by simp_all
    have pos: "0 < bit_length (n div 2)"
      using False by (subst bit_length.simps) simp
    have bl: "bit_length n = Suc (bit_length (n div 2))"
      using "1.prems" by (subst bit_length.simps) simp
    from pos have "(2::nat) ^ bit_length (n div 2) = 2 * 2 ^ (bit_length (n div 2) - 1)"
      by (cases "bit_length (n div 2)") simp_all
    with ih(1) have lo: "2 ^ bit_length (n div 2) \<le> n" by simp
    from ih(2) have hi: "n < 2 * 2 ^ bit_length (n div 2)" by arith
    from lo hi show ?thesis by (simp add: bl)
  qed
qed

lemma bit_length_eq:
  assumes "2 ^ k \<le> n" and "n < 2 ^ Suc k"
  shows "bit_length n = Suc k"
proof -
  have pos: "0 < n" using assms(1) by (cases "n = 0") simp_all
  from bit_length_bounds [OF pos]
  have lo: "2 ^ (bit_length n - 1) \<le> n" and hi: "n < 2 ^ bit_length n" by simp_all
  from assms(1) hi have "(2::nat) ^ k < 2 ^ bit_length n" by (rule le_less_trans)
  then have a: "k < bit_length n" by (simp add: power_strict_increasing_iff)
  from lo assms(2) have "(2::nat) ^ (bit_length n - 1) < 2 ^ Suc k" by (rule le_less_trans)
  then have "bit_length n - 1 < Suc k" by (simp only: power_strict_increasing_iff one_less_numeral_iff semiring_norm)
  with a show ?thesis by simp
qed

lemmas float_defs = parseFloat_def cleanAmount_def trim_def unsigned_literal_def js_def
  isWhiteSpace_def isDigit_def space_ranges_def digit_ranges_def digits_value_def
  exponent_part_def decimal_double_def to_double_def binary_exponent_def round_half_even_def
  Let_def

lemma parseFloat_example: "to_double False (digits_value (js ''2300'' @ js ''50'')) (10 ^ length (js ''50'')) = Number False (4601 / 2)"
  by (simp add: float_defs bit_length.simps)

lemma parseFloat_prefix_example: "to_double False (digits_value (js ''12'' @ [])) (10 ^ length ([] :: jsstring)) = Number False 12"
  by (simp add: float_defs bit_length.simps)

lemma parseFloat_overflow_example: "parseFloat (cleanAmount (js ''1e309'')) = Infinity False"
proof -
  have "bit_length (10 ^ 309) = Suc 1026"
    by (rule bit_length_eq) simp_all
  moreover have "bit_length 1 = 1" by (simp add: bit_length.simps)
  ultimately show ?thesis by (simp add: float_defs)
qed

lemma parseFloat_tenth:
  "parseFloat (js ''0.1'') = Number False (3602879701896397 / 36028797018963968)"
  by (simp add: float_defs bit_length.simps)

subsection \<open>The stored amount\<close>

lemma appended_amount:
  assumes "worksheet w = Some ws" and "rows_with ws (solicitudMessageId s) = 0"
  shows "\<exists>ws'. worksheet (snd (appendSolicitud save w s)) = Some ws' \<and>
           fst (appendSolicitud save w s) = (if save ws' then None else Some SaveError) \<and>
           length (rows ws') = Suc (length (rows ws)) \<and>
           stored_amount (snd (appendSolicitud save w s)) = Some (getCell (last (rows ws')) 4) \<and>
           getCell (last (rows ws')) 4 = montoCell (monto s)"
proof -
  from assms have none: "findExistingRow w (solicitudMessageId s) = None"
    by (simp add: findExistingRow_None)
  let ?ws' = "createFilterableTable (addRow ws (newRow s))"
  have cell: "getCell (last (rows ?ws')) 4 = montoCell (monto s)"
    by (simp add: rows_createFilterableTable addRow_def newRow_def getCell_def)
  have rws: "rows ?ws' \<noteq> []" "length (rows ?ws') = Suc (length (rows ws))"
    by (simp_all add: rows_createFilterableTable addRow_def)
  from assms(1) none cell rws show ?thesis
    by (simp add: appendSolicitud_def Let_def stored_amount_def)
qed

lemma append_errors:
  assumes "worksheet w = Some ws"
  shows "fst (appendSolicitud save w s) = None \<or> fst (appendSolicitud save w s) = Some SaveError"
proof (cases "rows_with ws (solicitudMessageId s) = 0")
  case True
  from appended_amount [OF assms True, of save] show ?thesis
    by (auto split: if_splits)
next
  case False
  with assms obtain r where "findExistingRow w (solicitudMessageId s) = Some r"
    using findExistingRow_None [OF assms, of "solicitudMessageId s"] by auto
  with assms show ?thesis by (simp add: appendSolicitud_def)
qed

text \<open>
  Claim C6, as stated, in the strict reading of "parses as a decimal number": an amount
  that does not parse is stored as the original text with no number format. The amount
  text "12abc" is not a decimal number, yet the appended row holds the number 12 with the
  accounting format.
\<close>

theorem appendSolicitud_amount_counterexample:
  "\<not> decimal_numeral (cleanAmount (js ''12abc'')) \<and>
   stored_amount (snd (appendSolicitud example_save example_writer
                         (example_solicitud (js ''12abc'')))) =
     Some \<lparr>cvalue = CNumber (Number False 12), numFmt = Some accounting_format\<rparr> \<and>
   stored_amount (snd (appendSolicitud example_save example_writer
                         (example_solicitud (js ''12abc'')))) \<noteq>
     Some (text_cell (js ''12abc''))"
proof -
  have a: "worksheet example_writer = Some initial_worksheet"
    by (simp add: example_writer_eq)
  have c: "rows_with initial_worksheet (solicitudMessageId (example_solicitud (js ''12abc''))) = 0"
    by (simp add: rows_with_def initial_worksheet_def example_solicitud_def)
  have n: "\<not> decimal_numeral (cleanAmount (js ''12abc''))"
    by (simp add: decimal_numeral_def cleanAmount_def trim_def js_def isWhiteSpace_def
          isDigit_def space_ranges_def digit_ranges_def Let_def)
  have p: "js ''12abc'' = [] @ js ''12'' @ fraction_text [] @ js ''abc''"
    by (simp add: js_def fraction_text_def)
  have cl: "cleanAmount (js ''12abc'') = js ''12abc''"
    by (simp add: cleanAmount_def trim_def js_def isWhiteSpace_def space_ranges_def)
  have "has_decimal_prefix (js ''12abc'') \<and>
        parseFloat (js ''12abc'') = to_double ([] = [45 :: nat]) (digits_value (js ''12'' @ [])) (10 ^ length ([] :: jsstring))"
    unfolding p
    by (rule parseFloat_decimal)
       (simp_all add: js_def isDigit_def digit_ranges_def ends_number_def)
  then have m: "montoCell (js ''12abc'') =
      \<lparr>cvalue = CNumber (Number False 12), numFmt = Some accounting_format\<rparr>"
    using parseFloat_prefix_example by (simp add: montoCell_eq cl)
  from appended_amount [OF a c, of example_save] m
  have s: "stored_amount (snd (appendSolicitud example_save example_writer
                         (example_solicitud (js ''12abc'')))) =
     Some \<lparr>cvalue = CNumber (Number False 12), numFmt = Some accounting_format\<rparr>"
    by (auto simp: example_solicitud_def example_save_def)
  from n s show ?thesis by (simp add: text_cell_def)
qed

text \<open>
  Claim C6, amended. An append to an initialised writer throws nothing but a failed save,
  whatever the amount text. When it adds a row (no row with the record's message id
  exists), take the amount text with dollar signs and commas removed and trimmed. If,
  after white space and an optional sign, it starts with a digit, with a point and a
  digit, or with "Infinity", the amount cell holds the number that \<^verbatim>\<open>parseFloat\<close> reads
  from it, with the accounting format, whatever follows that start; for digits with an
  optional fraction this number is the double nearest to the decimal value, an infinity
  when the value is beyond the range of the doubles. Otherwise, which includes the empty
  text and the "No especificada" sentinel, the cell holds the original text and has no
  number format.
\<close>

theorem appendSolicitud_amount:
  assumes "worksheet w = Some ws"
  shows "(fst (appendSolicitud save w s) = None \<or> fst (appendSolicitud save w s) = Some SaveError) \<and>
         (rows_with ws (solicitudMessageId s) = 0 \<longrightarrow>
            (\<exists>ws'. worksheet (snd (appendSolicitud save w s)) = Some ws' \<and>
               fst (appendSolicitud save w s) = (if save ws' then None else Some SaveError) \<and>
               length (rows ws') = Suc (length (rows ws)) \<and>
               stored_amount (snd (appendSolicitud save w s)) = Some (getCell (last (rows ws')) 4) \<and>
               getCell (last (rows ws')) 4 =
                 (if has_decimal_prefix (cleanAmount (monto s))
                  then \<lparr>cvalue = CNumber (parseFloat (cleanAmount (monto s))),
                        numFmt = Some accounting_format\<rparr>
                  else text_cell (monto s)))) \<and>
         \<not> has_decimal_prefix (cleanAmount []) \<and>
         \<not> has_decimal_prefix (cleanAmount no_especificada) \<and>
         ((sg = [] \<or> sg = [45] \<or> sg = [43]) \<and> ip \<noteq> [] \<and> list_all isDigit ip \<and>
          list_all isDigit fp \<and> ends_number rest \<and>
          cleanAmount (monto s) = sg @ ip @ fraction_text fp @ rest \<longrightarrow>
            has_decimal_prefix (cleanAmount (monto s)) \<and>
            parseFloat (cleanAmount (monto s)) =
              to_double (sg = [45]) (digits_value (ip @ fp)) (10 ^ length fp))"
proof (intro conjI impI)
  show "fst (appendSolicitud save w s) = None \<or> fst (appendSolicitud save w s) = Some SaveError"
    by (rule append_errors [OF assms])
next
  assume "rows_with ws (solicitudMessageId s) = 0"
  from appended_amount [OF assms this, of save]
  show "\<exists>ws'. worksheet (snd (appendSolicitud save w s)) = Some ws' \<and>
               fst (appendSolicitud save w s) = (if save ws' then None else Some SaveError) \<and>
               length (rows ws') = Suc (length (rows ws)) \<and>
               stored_amount (snd (appendSolicitud save w s)) = Some (getCell (last (rows ws')) 4) \<and>
               getCell (last (rows ws')) 4 =
                 (if has_decimal_prefix (cleanAmount (monto s))
                  then \<lparr>cvalue = CNumber (parseFloat (cleanAmount (monto s))),
                        numFmt = Some accounting_format\<rparr>
                  else text_cell (monto s))"
    by (simp add: montoCell_eq)
next
  show "\<not> has_decimal_prefix (cleanAmount [])" by (rule no_prefix_empty)
  show "\<not> has_decimal_prefix (cleanAmount no_especificada)" by (rule no_prefix_sentinel)
next
  assume h: "(sg = [] \<or> sg = [45] \<or> sg = [43]) \<and> ip \<noteq> [] \<and> list_all isDigit ip \<and>
          list_all isDigit fp \<and> ends_number rest \<and>
          cleanAmount (monto s) = sg @ ip @ fraction_text fp @ rest"
  then have p: "has_decimal_prefix (sg @ ip @ fraction_text fp @ rest) \<and>
         parseFloat (sg @ ip @ fraction_text fp @ rest) =
           to_double (sg = [45]) (digits_value (ip @ fp)) (10 ^ length fp)"
    by (intro parseFloat_decimal) simp_all
  from h p show "has_decimal_prefix (cleanAmount (monto s))" by simp
  from h p show "parseFloat (cleanAmount (monto s)) =
              to_double (sg = [45]) (digits_value (ip @ fp)) (10 ^ length fp)" by simp
qed

theorem appendSolicitud_amount_witness:
  "worksheet example_writer = Some initial_worksheet \<and>
   rows_with initial_worksheet (js ''m1'') = 0 \<and>
   cleanAmount (js ''$2,300.50'') = [] @ js ''2300'' @ fraction_text (js ''50'') @ [] \<and>
   fst (appendSolicitud example_save example_writer (example_solicitud (js ''$2,300.50''))) = None \<and>
   stored_amount (snd (appendSolicitud example_save example_writer
                         (example_solicitud (js ''$2,300.50'')))) =
     Some \<lparr>cvalue = CNumber (Number False (4601 / 2)), numFmt = Some accounting_format\<rparr> \<and>
   fst (appendSolicitud failing_save example_writer (example_solicitud no_especificada)) =
     Some SaveError \<and>
   stored_amount (snd (appendSolicitud failing_save example_writer
                         (example_solicitud no_especificada))) =
     Some \<lparr>cvalue = CText no_especificada, numFmt = None\<rparr> \<and>
   stored_amount (snd (appendSolicitud example_save example_writer
                         (example_solicitud (js ''1e309'')))) =
     Some \<lparr>cvalue = CNumber (Infinity False), numFmt = Some accounting_format\<rparr>"
proof -
  have a: "worksheet example_writer = Some initial_worksheet"
    by (simp add: example_writer_eq)
  have c: "rows_with initial_worksheet (js ''m1'') = 0"
    by (simp add: rows_with_def initial_worksheet_def)
  have m: "solicitudMessageId (example_solicitud t) = js ''m1''" "monto (example_solicitud t) = t" for t
    by (simp_all add: example_solicitud_def)
  have cl: "cleanAmount (js ''$2,300.50'') = [] @ js ''2300'' @ fraction_text (js ''50'') @ []"
    by (simp add: cleanAmount_def trim_def js_def isWhiteSpace_def space_ranges_def
          fraction_text_def)
  have dg: "([] = [] \<or> [] = [45 :: nat] \<or> [] = [43 :: nat]) \<and> js ''2300'' \<noteq> [] \<and>
      list_all isDigit (js ''2300'') \<and> list_all isDigit (js ''50'') \<and> ends_number []"
    by (simp add: js_def isDigit_def digit_ranges_def ends_number_def)
  note one = appendSolicitud_amount [OF a, where save = example_save
      and s = "example_solicitud (js ''$2,300.50'')" and sg = "[]" and ip = "js ''2300''"
      and fp = "js ''50''" and rest = "[]"]
  from one dg cl
  have v: "has_decimal_prefix (cleanAmount (js ''$2,300.50'')) \<and>
      parseFloat (cleanAmount (js ''$2,300.50'')) = Number False (4601 / 2)"
    using parseFloat_example by (simp add: m)
  from one c v
  have r1: "fst (appendSolicitud example_save example_writer (example_solicitud (js ''$2,300.50''))) = None \<and>
      stored_amount (snd (appendSolicitud example_save example_writer
                         (example_solicitud (js ''$2,300.50'')))) =
        Some \<lparr>cvalue = CNumber (Number False (4601 / 2)), numFmt = Some accounting_format\<rparr>"
    by (auto simp: m example_save_def)
  note two = appendSolicitud_amount [OF a, where save = failing_save
      and s = "example_solicitud no_especificada" and sg = "[]" and ip = "[]"
      and fp = "[]" and rest = "[]"]
  from two c
  have r2: "fst (appendSolicitud failing_save example_writer (example_solicitud no_especificada)) =
        Some SaveError \<and>
      stored_amount (snd (appendSolicitud failing_save example_writer
                         (example_solicitud no_especificada))) =
        Some \<lparr>cvalue = CText no_especificada, numFmt = None\<rparr>"
    by (auto simp: m text_cell_def failing_save_def)
  note three = appendSolicitud_amount [OF a, where save = example_save
      and s = "example_solicitud (js ''1e309'')" and sg = "[]" and ip = "[]"
      and fp = "[]" and rest = "[]"]
  have "parseFloat (cleanAmount (js ''1e309'')) \<noteq> NaN"
    by (simp add: parseFloat_overflow_example)
  then have "has_decimal_prefix (cleanAmount (js ''1e309''))"
    by (simp add: parseFloat_NaN)
  with three c
  have r3: "stored_amount (snd (appendSolicitud example_save example_writer
                         (example_solicitud (js ''1e309'')))) =
        Some \<lparr>cvalue = CNumber (Infinity False), numFmt = Some accounting_format\<rparr>"
    by (auto simp: m parseFloat_overflow_example)
  from a c cl r1 r2 r3 show ?thesis by blast
qed


section \<open>Properties of the pipeline\<close>

subsection \<open>Attachment selection\<close>

lemma insert_by_carta:
  assumes "\<forall>y \<in> set as. \<not> isCarta y" and "\<forall>y \<in> set bs. isCarta y"
  shows "insert_by carta_order x (as @ bs) = (if isCarta x then as @ x # bs else x # as @ bs)"
  using assms
proof (induction as)
  case Nil
  then show ?case by (cases bs) (simp_all add: carta_order_def)
next
  case (Cons a as)
  then show ?case by (simp add: carta_order_def)
qed

lemma sort_by_carta:
  "sort_by carta_order xs = filter (\<lambda>a. \<not> isCarta a) xs @ filter isCarta xs"
proof (induction xs)
  case Nil
  show ?case by simp
next
  case (Cons x xs)
  have "insert_by carta_order x (filter (\<lambda>a. \<not> isCarta a) xs @ filter isCarta xs) =
          (if isCarta x then filter (\<lambda>a. \<not> isCarta a) xs @ x # filter isCarta xs
           else x # filter (\<lambda>a. \<not> isCarta a) xs @ filter isCarta xs)"
    by (rule insert_by_carta) simp_all
  with Cons show ?case by simp
qed

lemma set_sortedAttachments: "set (sortedAttachments atts) = set atts"
  by (auto simp: sortedAttachments_def sort_by_carta)

text \<open>
  Claim C4. For every attachment list, the attachments that are worked on are exactly
  those whose MIME type is "application/pdf", those whose lower-cased file name does not
  contain "carta" first and those whose name contains it after them, each group in its
  original order. For CARTA.pdf, FACTURA.pdf (both PDF) and note.txt (not a PDF) the
  result is FACTURA.pdf, CARTA.pdf.
\<close>

theorem selectAttachments_order:
  "selectAttachments atts =
     filter (\<lambda>a. mimeType a = js ''application/pdf'' \<and> \<not> isCarta a) atts @
     filter (\<lambda>a. mimeType a = js ''application/pdf'' \<and> isCarta a) atts \<and>
   map filename (selectAttachments example_attachments) = [js ''FACTURA.pdf'', js ''CARTA.pdf'']"
proof
  show "selectAttachments atts =
     filter (\<lambda>a. mimeType a = js ''application/pdf'' \<and> \<not> isCarta a) atts @
     filter (\<lambda>a. mimeType a = js ''application/pdf'' \<and> isCarta a) atts"
    by (simp add: selectAttachments_def sortedAttachments_def sort_by_carta pdfAttachments_def
          conj_commute)
  show "map filename (selectAttachments example_attachments) = [js ''FACTURA.pdf'', js ''CARTA.pdf'']"
    by (simp add: selectAttachments_def sortedAttachments_def pdfAttachments_def
          example_attachments_def carta_order_def isCarta_def toLowerCase_def lower_unit_def
          js_def)
qed

subsection \<open>The issuer of a record\<close>

lemmas client_defs = displayNamePattern_def addressPattern_def subjectPattern_def
  extractClientName_def

text \<open>
  Claim C2 at a failing input: a document text "hola", in which no strategy finds an
  issuer, and a message from "Juan Perez <juan@acme.mx>". The extraction returns the
  sentinel "EMPRESA NO IDENTIFICADA"; the assembled issuer is that sentinel, not the
  display name "Juan Perez" that the fallback chain gives, because the sentinel is
  compared with the other literal "No especificada".
\<close>

theorem issuer_sentinel_not_replaced:
  "extractCompanyName (js ''hola'') = Inr unidentified \<and>
   issuer (js ''hola'') example_email = Inr (js ''EMPRESA NO IDENTIFICADA'') \<and>
   extractClientName (sender example_email) (subject example_email) = Inr (js ''Juan Perez'')"
proof (intro conjI)
  show a: "extractCompanyName (js ''hola'') = Inr unidentified"
    by (simp add: extractCompanyName_def rx_defs pattern_defs)
  show "issuer (js ''hola'') example_email = Inr (js ''EMPRESA NO IDENTIFICADA'')"
    by (simp add: issuer_def extractDataFromText_def a cliente_def)
       (simp add: unidentified_def no_especificada_def js_def)
  show "extractClientName (sender example_email) (subject example_email) = Inr (js ''Juan Perez'')"
    by (simp add: example_email_def client_defs rx_defs)
qed

subsection \<open>Record assembly never throws\<close>

lemma groups_clientPatterns:
  "always_sets 1 displayNamePattern \<and> 1 \<le> ngroups displayNamePattern"
  "always_sets 1 addressPattern \<and> 1 \<le> ngroups addressPattern"
  "always_sets 1 subjectPattern \<and> 1 \<le> ngroups subjectPattern"
  by (simp_all add: rx_defs client_defs)

lemma extractClientName_total: "\<exists>v. extractClientName s t = Inr v"
proof (cases "str_match s no_flags displayNamePattern")
  case (Some m)
  from match_group_defined [OF Some, of 1] groups_clientPatterns(1)
  obtain v where "defined (group_at m 1) = Inr v" by auto
  with Some show ?thesis by (simp add: extractClientName_def)
next
  case None
  note n1 = this
  show ?thesis
  proof (cases "str_match s no_flags addressPattern")
    case (Some m)
    from match_group_defined [OF Some, of 1] groups_clientPatterns(2)
    obtain v where "defined (group_at m 1) = Inr v" by auto
    with Some n1 show ?thesis by (simp add: extractClientName_def)
  next
    case None
    note n2 = this
    show ?thesis
    proof (cases "str_match t flag_i subjectPattern")
      case (Some m)
      from match_group_defined [OF Some, of 1] groups_clientPatterns(3)
      obtain v where "defined (group_at m 1) = Inr v" by auto
      with Some n1 n2 show ?thesis by (simp add: extractClientName_def)
    next
      case None
      with n1 n2 show ?thesis by (simp add: extractClientName_def)
    qed
  qed
qed

lemma solicitudData_total:
  "\<exists>s. solicitudData parsedData email = Inr s \<and> solicitudMessageId s = messageId email"
proof -
  obtain a where a: "extractAmountFromSubject (subject email) = Inr a"
    using extractAmountFromSubject_total by blast
  obtain c where c: "extractCityFromSubject (subject email) = Inr c"
    using extractCityFromSubject_total by blast
  have "\<exists>n. cliente parsedData email = Inr n"
    using extractClientName_total [of "sender email" "subject email"]
    by (simp add: cliente_def)
  then obtain n where n: "cliente parsedData email = Inr n" ..
  show ?thesis by (simp add: solicitudData_def a c n)
qed

lemma parsePDF_total:
  "parse buf = Inr text \<Longrightarrow> \<exists>parsedData. parsePDF parse buf = Inr parsedData"
  by (simp add: parsePDF_def extractDataFromText_def extractCompanyName_eq)

subsection \<open>Batch isolation\<close>

lemma watcher_attachment_body: "watcher (snd (attachment_body e email a st)) = watcher st"
  by (simp add: attachment_body_def split: sum.splits prod.splits option.splits)

lemma watcher_attachments_loop: "watcher (attachments_loop e email atts st) = watcher st"
  by (induction atts arbitrary: st) (simp_all add: watcher_attachment_body)

lemma watcher_emails_loop: "watcher (emails_loop e emails st) = watcher st"
  by (induction emails arbitrary: st) (simp_all add: processEmail_def watcher_attachments_loop)


lemma attachment_body_step:
  assumes "worksheet (excelWriter st) = Some ws" and "rows ws \<noteq> []"
    and "gmailReady (watcher st)"
  shows "\<exists>ws'. worksheet (excelWriter (snd (attachment_body e email a st))) = Some ws' \<and>
           rows ws' \<noteq> [] \<and> (\<forall>m. rows_with ws m \<le> rows_with ws' m) \<and>
           ((\<exists>buf text. download e (messageId email) (attachmentId a) = Inr buf \<and>
                        pdfParse e buf = Inr text) \<longrightarrow>
              0 < rows_with ws' (messageId email))"
proof (cases "download e (messageId email) (attachmentId a)")
  case (Inl err)
  with assms show ?thesis by (simp add: attachment_body_def downloadAttachment_def)
next
  case (Inr buf)
  with assms(3)
  have dl: "downloadAttachment e (watcher st) (messageId email) (attachmentId a) = Inr buf"
    by (simp add: downloadAttachment_def)
  note dl0 = Inr
  show ?thesis
  proof (cases "parsePDF (pdfParse e) buf")
    case (Inl err)
    then have "\<not> (\<exists>text. pdfParse e buf = Inr text)"
      using parsePDF_total [of "pdfParse e" buf] by auto
    with assms dl dl0 Inl show ?thesis by (simp add: attachment_body_def)
  next
    case (Inr parsedData)
    from solicitudData_total [of parsedData email]
    obtain s where s: "solicitudData parsedData email = Inr s"
      "solicitudMessageId s = messageId email" by blast
    from appendSolicitud_step [OF assms(1,2), of "writeFile e" s]
    obtain ws' where ws': "worksheet (snd (appendSolicitud (writeFile e) (excelWriter st) s)) = Some ws'"
      "rows ws' \<noteq> []"
      "\<forall>m. rows_with ws' m =
         (if m = solicitudMessageId s \<and> rows_with ws m = 0 then 1 else rows_with ws m)"
      by blast
    have w: "worksheet (excelWriter (snd (attachment_body e email a st))) = Some ws'"
      using dl Inr s(1) ws'(1) assms(3)
      by (cases "appendSolicitud (writeFile e) (excelWriter st) s")
         (auto simp: attachment_body_def markAsProcessed_def split: option.splits)
    have mono: "\<forall>m. rows_with ws m \<le> rows_with ws' m"
      using ws'(3) by simp
    have pos: "0 < rows_with ws' (messageId email)"
      using ws'(3) s(2) by (cases "rows_with ws (messageId email) = 0") simp_all
    from w ws'(2) mono pos show ?thesis by blast
  qed
qed

lemma attachments_loop_step:
  assumes "worksheet (excelWriter st) = Some ws" and "rows ws \<noteq> []"
    and "gmailReady (watcher st)"
  shows "\<exists>ws'. worksheet (excelWriter (attachments_loop e email atts st)) = Some ws' \<and>
           rows ws' \<noteq> [] \<and> (\<forall>m. rows_with ws m \<le> rows_with ws' m) \<and>
           ((\<exists>a \<in> set atts. \<exists>buf text. download e (messageId email) (attachmentId a) = Inr buf \<and>
                        pdfParse e buf = Inr text) \<longrightarrow>
              0 < rows_with ws' (messageId email))"
  using assms
proof (induction atts arbitrary: st ws)
  case Nil
  then show ?case by simp
next
  case (Cons a atts)
  from attachment_body_step [OF Cons.prems, of e email a]
  obtain ws1 where ws1: "worksheet (excelWriter (snd (attachment_body e email a st))) = Some ws1"
    "rows ws1 \<noteq> []" "\<forall>m. rows_with ws m \<le> rows_with ws1 m"
    "(\<exists>buf text. download e (messageId email) (attachmentId a) = Inr buf \<and>
                        pdfParse e buf = Inr text) \<longrightarrow>
              0 < rows_with ws1 (messageId email)"
    by blast
  have ready: "gmailReady (watcher (snd (attachment_body e email a st)))"
    using Cons.prems(3) by (simp add: watcher_attachment_body)
  from Cons.IH [OF ws1(1,2) ready]
  obtain ws' where ws': "worksheet (excelWriter (attachments_loop e email atts
        (snd (attachment_body e email a st)))) = Some ws'"
    "rows ws' \<noteq> []" "\<forall>m. rows_with ws1 m \<le> rows_with ws' m"
    "(\<exists>a \<in> set atts. \<exists>buf text. download e (messageId email) (attachmentId a) = Inr buf \<and>
                        pdfParse e buf = Inr text) \<longrightarrow>
              0 < rows_with ws' (messageId email)"
    by blast
  have mono: "\<forall>m. rows_with ws m \<le> rows_with ws' m"
    using ws1(3) ws'(3) le_trans by blast
  have "0 < rows_with ws' (messageId email)"
    if "\<exists>a' \<in> set (a # atts). \<exists>buf text. download e (messageId email) (attachmentId a') = Inr buf \<and>
                        pdfParse e buf = Inr text"
  proof -
    from that consider "\<exists>buf text. download e (messageId email) (attachmentId a) = Inr buf \<and>
                        pdfParse e buf = Inr text"
      | "\<exists>a' \<in> set atts. \<exists>buf text. download e (messageId email) (attachmentId a') = Inr buf \<and>
                        pdfParse e buf = Inr text"
      by auto
    then show ?thesis
    proof cases
      case 1
      with ws1(4) have "0 < rows_with ws1 (messageId email)" by blast
      with ws'(3) show ?thesis by (metis less_le_trans)
    next
      case 2
      with ws'(4) show ?thesis by blast
    qed
  qed
  with ws'(1,2) mono show ?case by auto
qed

lemma processEmail_step:
  assumes "worksheet (excelWriter st) = Some ws" and "rows ws \<noteq> []"
    and "gmailReady (watcher st)"
  shows "\<exists>ws'. worksheet (excelWriter (processEmail e email st)) = Some ws' \<and>
           rows ws' \<noteq> [] \<and> (\<forall>m. rows_with ws m \<le> rows_with ws' m) \<and>
           ((\<exists>a \<in> set (attachments email). \<exists>buf text.
                download e (messageId email) (attachmentId a) = Inr buf \<and>
                pdfParse e buf = Inr text) \<longrightarrow>
              0 < rows_with ws' (messageId email))"
  using attachments_loop_step [OF assms, of e email "sortedAttachments (attachments email)"]
  by (simp add: processEmail_def set_sortedAttachments)

lemma emails_loop_step:
  assumes "worksheet (excelWriter st) = Some ws" and "rows ws \<noteq> []"
    and "gmailReady (watcher st)"
  shows "\<exists>ws'. worksheet (excelWriter (emails_loop e emails st)) = Some ws' \<and>
           rows ws' \<noteq> [] \<and> (\<forall>m. rows_with ws m \<le> rows_with ws' m) \<and>
           (\<forall>email \<in> set emails.
              (\<exists>a \<in> set (attachments email). \<exists>buf text.
                 download e (messageId email) (attachmentId a) = Inr buf \<and>
                 pdfParse e buf = Inr text) \<longrightarrow>
              0 < rows_with ws' (messageId email))"
  using assms
proof (induction emails arbitrary: st ws)
  case Nil
  then show ?case by simp
next
  case (Cons email emails)
  from processEmail_step [OF Cons.prems, of e email]
  obtain ws1 where ws1: "worksheet (excelWriter (processEmail e email st)) = Some ws1"
    "rows ws1 \<noteq> []" "\<forall>m. rows_with ws m \<le> rows_with ws1 m"
    "(\<exists>a \<in> set (attachments email). \<exists>buf text.
                download e (messageId email) (attachmentId a) = Inr buf \<and>
                pdfParse e buf = Inr text) \<longrightarrow>
              0 < rows_with ws1 (messageId email)"
    by blast
  have ready: "gmailReady (watcher (processEmail e email st))"
    using Cons.prems(3) by (simp add: processEmail_def watcher_attachments_loop)
  from Cons.IH [OF ws1(1,2) ready]
  obtain ws' where ws': "worksheet (excelWriter (emails_loop e emails (processEmail e email st))) = Some ws'"
    "rows ws' \<noteq> []" "\<forall>m. rows_with ws1 m \<le> rows_with ws' m"
    "\<forall>email \<in> set emails.
              (\<exists>a \<in> set (attachments email). \<exists>buf text.
                 download e (messageId email) (attachmentId a) = Inr buf \<and>
                 pdfParse e buf = Inr text) \<longrightarrow>
              0 < rows_with ws' (messageId email)"
    by blast
  have mono: "\<forall>m. rows_with ws m \<le> rows_with ws' m"
    using ws1(3) ws'(3) le_trans by blast
  have first: "(\<exists>a \<in> set (attachments email). \<exists>buf text.
                download e (messageId email) (attachmentId a) = Inr buf \<and>
                pdfParse e buf = Inr text) \<longrightarrow>
              0 < rows_with ws' (messageId email)"
    using ws1(4) ws'(3) by (metis less_le_trans)
  from ws'(1,2) mono first ws'(4) show ?case by auto
qed

text \<open>
  Claim C8. Let the worksheet hold its header row and the Gmail client exist. After a batch has been processed,
  every message of the batch that has an attachment whose download succeeds and whose
  document renders as text has a row in the ledger, whatever fails for the other
  attachments of the message and for the other messages of the batch; rows that were
  there stay.
\<close>

theorem emails_loop_isolation:
  assumes "worksheet (excelWriter st) = Some ws" and "rows ws \<noteq> []"
    and "gmailReady (watcher st)"
  shows "\<exists>ws'. worksheet (excelWriter (emails_loop e emails st)) = Some ws' \<and>
           (\<forall>m. rows_with ws m \<le> rows_with ws' m) \<and>
           (\<forall>email \<in> set emails.
              (\<exists>a \<in> set (attachments email). \<exists>buf text.
                 download e (messageId email) (attachmentId a) = Inr buf \<and>
                 pdfParse e buf = Inr text) \<longrightarrow>
              0 < rows_with ws' (messageId email))"
  using emails_loop_step [OF assms, of e emails] by blast

lemma example_rows:
  "map (\<lambda>r. cvalue (getCell r 6))
     (rows (the (worksheet (excelWriter (emails_loop example_env example_batch example_pipeline))))) =
   [CNull, CText (js ''m1''), CText (js ''m3'')]"
  by (simp add: example_batch_def example_env_def example_pipeline_def example_writer_eq
        processEmail_def sortedAttachments_def pdfAttachments_def example_attachments_def
        carta_order_def isCarta_def attachment_body_def downloadAttachment_def
        markAsProcessed_def parsePDF_def extractDataFromText_def
        extractCompanyName_def solicitudData_def cliente_def extractAmountFromSubject_def
        extractCityFromSubject_def rx_defs pattern_defs formatShortDate_def months_def
        appendSolicitud_def findExistingRow_def initial_worksheet_def header_row_def
        getCell_def text_cell_def empty_cell_def newRow_def createFilterableTable_def
        addRow_def rowCount_def generateGmailLink_def unidentified_def no_especificada_def
        Let_def)

lemma example_saved:
  "savedFile (excelWriter (emails_loop example_env example_batch example_pipeline)) =
   worksheet (excelWriter (emails_loop example_env example_batch example_pipeline))"
  by (simp add: example_batch_def example_env_def example_pipeline_def example_writer_eq
        processEmail_def sortedAttachments_def pdfAttachments_def example_attachments_def
        carta_order_def isCarta_def attachment_body_def downloadAttachment_def
        markAsProcessed_def parsePDF_def extractDataFromText_def
        extractCompanyName_def solicitudData_def cliente_def extractAmountFromSubject_def
        extractCityFromSubject_def rx_defs pattern_defs formatShortDate_def months_def
        appendSolicitud_def findExistingRow_def initial_worksheet_def header_row_def
        getCell_def text_cell_def empty_cell_def newRow_def createFilterableTable_def
        addRow_def rowCount_def generateGmailLink_def unidentified_def no_especificada_def
        Let_def)

theorem emails_loop_isolation_witness:
  "worksheet (excelWriter example_pipeline) = Some initial_worksheet \<and>
   rows initial_worksheet \<noteq> [] \<and> gmailReady (watcher example_pipeline) \<and>
   map messageId example_batch = [js ''m1'', js ''m2'', js ''m3''] \<and>
   download example_env (js ''m2'') (js ''a1'') = Inl DownloadError \<and>
   download example_env (js ''m2'') (js ''a2'') = Inl DownloadError \<and>
   (\<exists>ws'. worksheet (excelWriter (emails_loop example_env example_batch example_pipeline)) = Some ws' \<and>
      0 < rows_with ws' (js ''m1'') \<and> 0 < rows_with ws' (js ''m3'') \<and>
      map (\<lambda>r. cvalue (getCell r 6)) (rows ws') = [CNull, CText (js ''m1''), CText (js ''m3'')] \<and>
      savedFile (excelWriter (emails_loop example_env example_batch example_pipeline)) = Some ws')"
proof -
  have a: "worksheet (excelWriter example_pipeline) = Some initial_worksheet"
    by (simp add: example_pipeline_def example_writer_eq)
  have b: "rows initial_worksheet \<noteq> []"
    by (simp add: initial_worksheet_def)
  have c: "gmailReady (watcher example_pipeline)"
    by (simp add: example_pipeline_def)
  have ids: "map messageId example_batch = [js ''m1'', js ''m2'', js ''m3'']"
    by (simp add: example_batch_def)
  have d: "download example_env (js ''m2'') aid = Inl DownloadError" for aid
    by (simp add: example_env_def)
  from emails_loop_isolation [OF a b c, of example_env example_batch]
  obtain ws' where ws': "worksheet (excelWriter (emails_loop example_env example_batch example_pipeline)) = Some ws'"
    and each: "\<forall>email \<in> set example_batch.
              (\<exists>a \<in> set (attachments email). \<exists>buf text.
                 download example_env (messageId email) (attachmentId a) = Inr buf \<and>
                 pdfParse example_env buf = Inr text) \<longrightarrow>
              0 < rows_with ws' (messageId email)"
    by blast
  have ok: "\<exists>a \<in> set (pdfAttachments example_attachments). \<exists>buf text.
      download example_env mid (attachmentId a) = Inr buf \<and> pdfParse example_env buf = Inr text"
    if "mid \<noteq> js ''m2''" for mid
  proof -
    have "\<lparr>filename = js ''CARTA.pdf'', mimeType = js ''application/pdf'',
           attachmentId = js ''a1'', sizeBytes = 100\<rparr> \<in> set (pdfAttachments example_attachments)"
      by (simp add: pdfAttachments_def example_attachments_def)
    moreover have "download example_env mid (js ''a1'') = Inr mid \<and>
        pdfParse example_env mid = Inr (js ''CAZAN'')"
      using that by (simp add: example_env_def)
    ultimately show ?thesis by force
  qed
  have m1: "0 < rows_with ws' (js ''m1'')"
    using each ok [of "js ''m1''"] by (simp add: example_batch_def js_def)
  have m3: "0 < rows_with ws' (js ''m3'')"
    using each ok [of "js ''m3''"] by (simp add: example_batch_def js_def)
  have rws: "map (\<lambda>r. cvalue (getCell r 6)) (rows ws') = [CNull, CText (js ''m1''), CText (js ''m3'')]"
    using example_rows ws' by simp
  have sav: "savedFile (excelWriter (emails_loop example_env example_batch example_pipeline)) = Some ws'"
    using example_saved ws' by simp
  show ?thesis
    by (intro conjI exI [of _ ws'] a b c ids d ws' m1 m3 rws sav)
qed

subsection \<open>The seen set\<close>

lemma getMessageDetails_id: "getMessageDetails e mid = Some pe \<Longrightarrow> messageId pe = mid"
  by (auto simp: getMessageDetails_def split: sum.splits if_splits)

lemma messages_loop_seen:
  assumes "messages_loop e ms (acc, seen) = (out, seen')"
  shows "seen \<subseteq> seen' \<and>
         (\<forall>pe \<in> set out. pe \<in> set acc \<or> (messageId pe \<in> seen' \<and> messageId pe \<notin> seen))"
  using assms
proof (induction ms arbitrary: acc seen)
  case Nil
  then show ?case by auto
next
  case (Cons m ms)
  show ?case
  proof (cases m)
    case None
    with Cons.prems have "messages_loop e ms (acc, seen) = (out, seen')" by simp
    from Cons.IH [OF this] show ?thesis .
  next
    case (Some mid)
    show ?thesis
    proof (cases "mid \<noteq> [] \<and> mid \<notin> seen")
      case False
      with Some Cons.prems have "messages_loop e ms (acc, seen) = (out, seen')" by auto
      from Cons.IH [OF this] show ?thesis .
    next
      case True
      show ?thesis
      proof (cases "getMessageDetails e mid")
        case None
        with True Some Cons.prems have "messages_loop e ms (acc, seen) = (out, seen')" by simp
        from Cons.IH [OF this] show ?thesis .
      next
        case (Some pe)
        with True \<open>m = Some mid\<close> Cons.prems
        have "messages_loop e ms (acc @ [pe], insert mid seen) = (out, seen')" by simp
        from Cons.IH [OF this]
        have sub: "insert mid seen \<subseteq> seen'"
          and mem: "\<forall>x \<in> set out. x \<in> set (acc @ [pe]) \<or>
                      (messageId x \<in> seen' \<and> messageId x \<notin> insert mid seen)"
          by blast+
        have "messageId pe = mid" using Some by (rule getMessageDetails_id)
        with sub mem True show ?thesis by auto
      qed
    qed
  qed
qed

lemma checkForNewMessages_seen:
  assumes "checkForNewMessages e w = (Inr emails, w')"
  shows "processedMessages w \<subseteq> processedMessages w' \<and>
         (\<forall>pe \<in> set emails. messageId pe \<in> processedMessages w' \<and>
                              messageId pe \<notin> processedMessages w)"
proof (cases "listMessages e")
  case (Inl err)
  with assms show ?thesis by (simp add: checkForNewMessages_def split: if_splits)
next
  case (Inr messages)
  show ?thesis
  proof (cases "messages = [] \<or> \<not> gmailReady w")
    case True
    with Inr assms show ?thesis
      by (auto simp: checkForNewMessages_def split: if_splits option.splits)
  next
    case False
    obtain out seen' where l: "messages_loop e messages ([], processedMessages w) = (out, seen')"
      by (cases "messages_loop e messages ([], processedMessages w)")
    with False Inr assms have "emails = out" "w' = w\<lparr>processedMessages := seen'\<rparr>"
      by (simp_all add: checkForNewMessages_def)
    with messages_loop_seen [OF l] show ?thesis by auto
  qed
qed

lemma checkForNewMessages_mono:
  "processedMessages w \<subseteq> processedMessages (snd (checkForNewMessages e w))"
proof (cases "checkForNewMessages e w")
  case (Pair r w')
  show ?thesis
  proof (cases r)
    case (Inl err)
    with Pair have "w' = w"
      by (auto simp: checkForNewMessages_def Let_def
            split: if_splits sum.splits prod.splits option.splits)
    with Pair show ?thesis by simp
  next
    case (Inr emails)
    with Pair checkForNewMessages_seen [of e w emails w'] show ?thesis by simp
  qed
qed

lemma watcher_checkAndProcessEmails:
  "watcher (checkAndProcessEmails e st) = snd (checkForNewMessages e (watcher st))"
  by (simp add: checkAndProcessEmails_def watcher_emails_loop split: prod.splits sum.splits)

lemma polls_mono:
  "processedMessages (watcher st) \<subseteq> processedMessages (watcher (polls es st))"
proof (induction es arbitrary: st)
  case Nil
  show ?case by simp
next
  case (Cons e es)
  have "processedMessages (watcher st) \<subseteq> processedMessages (watcher (checkAndProcessEmails e st))"
    by (simp add: watcher_checkAndProcessEmails checkForNewMessages_mono)
  with Cons [of "checkAndProcessEmails e st"] show ?case by auto
qed

lemma checkForNewMessages_independent:
  "checkForNewMessages (e\<lparr>download := d, pdfParse := p, writeFile := sv\<rparr>) w =
     checkForNewMessages e w"
proof -
  have g: "getMessageDetails (e\<lparr>download := d, pdfParse := p, writeFile := sv\<rparr>) mid =
             getMessageDetails e mid" for mid
    by (simp add: getMessageDetails_def)
  have ml: "messages_loop (e\<lparr>download := d, pdfParse := p, writeFile := sv\<rparr>) ms x =
          messages_loop e ms x" for ms x
  proof (induction ms arbitrary: x)
    case Nil
    show ?case by (cases x) simp
  next
    case (Cons m ms)
    show ?case by (cases x) (simp add: Cons g split: option.splits)
  qed
  show ?thesis by (simp add: checkForNewMessages_def ml split: sum.splits)
qed

text \<open>
  Claim C9. When a poll's \<^verbatim>\<open>checkForNewMessages\<close> returns a message, the message's id is
  in the seen set that the call leaves. The call does not depend on what downloads,
  document parsing or ledger writes do, and processing the returned messages leaves the
  seen set as the call left it. So in every later poll of the same run, whatever the
  world is then and whatever failed in between, \<^verbatim>\<open>checkForNewMessages\<close> does not return
  a message with that id again.
\<close>

theorem seen_before_processing:
  assumes "checkForNewMessages e (watcher st) = (Inr emails, w)" and "email \<in> set emails"
  shows "messageId email \<in> processedMessages w \<and>
         checkForNewMessages (e\<lparr>download := d, pdfParse := p, writeFile := sv\<rparr>) (watcher st) =
           (Inr emails, w) \<and>
         watcher (checkAndProcessEmails e st) = w \<and>
         (\<forall>later e' emails' w'.
            checkForNewMessages e' (watcher (polls later (checkAndProcessEmails e st))) =
              (Inr emails', w') \<longrightarrow>
            messageId email \<notin> messageId ` set emails')"
proof (intro conjI allI impI)
  from checkForNewMessages_seen [OF assms(1)] assms(2)
  show seen: "messageId email \<in> processedMessages w" by blast
  show "checkForNewMessages (e\<lparr>download := d, pdfParse := p, writeFile := sv\<rparr>) (watcher st) =
           (Inr emails, w)"
    by (simp add: checkForNewMessages_independent assms(1))
  show w: "watcher (checkAndProcessEmails e st) = w"
    by (simp add: watcher_checkAndProcessEmails assms(1))
  fix later e' emails' w'
  assume again: "checkForNewMessages e' (watcher (polls later (checkAndProcessEmails e st))) =
              (Inr emails', w')"
  have "messageId email \<in> processedMessages (watcher (polls later (checkAndProcessEmails e st)))"
    using polls_mono [of "checkAndProcessEmails e st" later] seen w by auto
  with checkForNewMessages_seen [OF again]
  show "messageId email \<notin> messageId ` set emails'" by auto
qed

lemma example_first_poll:
  "fst (checkForNewMessages example_env (watcher example_pipeline)) = Inr example_batch"
  by (simp add: checkForNewMessages_def example_env_def example_pipeline_def
        getMessageDetails_def pdfAttachments_def example_attachments_def example_batch_def
        js_def)

lemma example_second_poll:
  "fst (checkForNewMessages example_env
          (snd (checkForNewMessages example_env
             (snd (checkForNewMessages example_env (watcher example_pipeline)))))) = Inr []"
  by (simp add: checkForNewMessages_def example_env_def example_pipeline_def
        getMessageDetails_def pdfAttachments_def example_attachments_def js_def)

theorem seen_before_processing_witness:
  "(\<exists>w. checkForNewMessages example_env (watcher example_pipeline) = (Inr example_batch, w) \<and>
        js ''m2'' \<in> processedMessages w \<and>
        watcher (checkAndProcessEmails example_env example_pipeline) = w) \<and>
   example_batch ! 1 \<in> set example_batch \<and>
   messageId (example_batch ! 1) = js ''m2'' \<and>
   download example_env (js ''m2'') (js ''a2'') = Inl DownloadError \<and>
   (\<exists>emails' w'. checkForNewMessages example_env
        (watcher (polls [example_env] (checkAndProcessEmails example_env example_pipeline))) =
        (Inr emails', w') \<and> js ''m2'' \<notin> messageId ` set emails')"
proof -
  define w where "w = snd (checkForNewMessages example_env (watcher example_pipeline))"
  have first: "checkForNewMessages example_env (watcher example_pipeline) = (Inr example_batch, w)"
    using example_first_poll by (simp add: w_def prod_eq_iff)
  have mem: "example_batch ! 1 \<in> set example_batch"
    by (simp add: example_batch_def)
  have m2: "messageId (example_batch ! 1) = js ''m2''"
    by (simp add: example_batch_def)
  have dl: "download example_env (js ''m2'') (js ''a2'') = Inl DownloadError"
    by (simp add: example_env_def)
  note inst = seen_before_processing [OF first mem, where d = "download example_env"
      and p = "pdfParse example_env" and sv = "writeFile example_env"]
  have seen: "js ''m2'' \<in> processedMessages w"
    using inst [THEN conjunct1] unfolding m2 .
  have wat: "watcher (checkAndProcessEmails example_env example_pipeline) = w"
    using inst [THEN conjunct2, THEN conjunct2, THEN conjunct1] .
  have fut: "\<forall>later e' emails' w'.
      checkForNewMessages e' (watcher (polls later (checkAndProcessEmails example_env example_pipeline))) =
        (Inr emails', w') \<longrightarrow> js ''m2'' \<notin> messageId ` set emails'"
    using inst [THEN conjunct2, THEN conjunct2, THEN conjunct2] unfolding m2 .
  define st where "st = polls [example_env] (checkAndProcessEmails example_env example_pipeline)"
  obtain r w' where again: "checkForNewMessages example_env (watcher st) = (r, w')"
    by (cases "checkForNewMessages example_env (watcher st)")
  have "watcher st = snd (checkForNewMessages example_env w)"
    by (simp add: st_def watcher_checkAndProcessEmails w_def)
  with example_second_poll again have r: "r = Inr []"
    by (simp add: w_def)
  from again r have again': "checkForNewMessages example_env (watcher st) = (Inr [], w')"
    by simp
  have "js ''m2'' \<notin> messageId ` set ([] :: ProcessedEmail list)"
    by (rule fut [rule_format, OF again' [unfolded st_def]])
  with again r have last: "\<exists>emails' w'. checkForNewMessages example_env (watcher st) =
        (Inr emails', w') \<and> js ''m2'' \<notin> messageId ` set emails'"
    by blast
  show ?thesis
    using first seen wat mem m2 dl last unfolding st_def by blast
qed


section \<open>Properties of the retry wrapper\<close>

lemma state_after_shift:
  "state_after operation (snd (operation s)) k = state_after operation s (Suc k)"
  by (induction k) simp_all

lemma outcome_shift:
  "outcome operation (snd (operation s)) k = outcome operation s (Suc k)"
  by (simp add: outcome_def state_after_shift del: state_after.simps(2))

lemma failed_rounds_Suc:
  "failed_rounds d (Suc k) = [Invoke, Wait d] @ failed_rounds d k"
  by (simp add: failed_rounds_def)

lemma retry_loop_success:
  assumes "\<forall>j<k. isl (outcome operation s j)" and "outcome operation s k = Inr v"
    and "i + int k < maxRetries"
  shows "retry_loop operation maxRetries d i s tr =
           (Inr v, state_after operation s (Suc k), tr @ failed_rounds d k @ [Invoke])"
  using assms
proof (induction k arbitrary: s i tr)
  case 0
  then obtain s' where "operation s = (Inr v, s')"
    by (cases "operation s") (simp add: outcome_def)
  with 0 show ?case
    by (simp add: failed_rounds_def)
next
  case (Suc k)
  from Suc.prems(1) have "isl (outcome operation s 0)" by blast
  then obtain e s' where op: "operation s = (Inl e, s')"
    by (cases "operation s") (auto simp: outcome_def isl_def)
  have s': "s' = snd (operation s)" using op by simp
  have a: "\<forall>j<k. isl (outcome operation s' j)"
    using Suc.prems(1) by (simp add: s' outcome_shift)
  have b: "outcome operation s' k = Inr v"
    using Suc.prems(2) by (simp add: s' outcome_shift)
  have c: "(i + 1) + int k < maxRetries" using Suc.prems(3) by simp
  have "retry_loop operation maxRetries d (i + 1) s' (tr @ [Invoke, Wait d]) =
          (Inr v, state_after operation s' (Suc k), (tr @ [Invoke, Wait d]) @ failed_rounds d k @ [Invoke])"
    by (rule Suc.IH [OF a b c])
  moreover have "state_after operation s' (Suc k) = state_after operation s (Suc (Suc k))"
    unfolding s' by (rule state_after_shift)
  moreover have "i < maxRetries" "i \<noteq> maxRetries - 1" using Suc.prems(3) by simp_all
  ultimately show ?case
    using op by (simp add: failed_rounds_Suc del: state_after.simps(2))
qed

lemma retry_loop_exhausted:
  assumes "\<forall>j\<le>k. isl (outcome operation s j)" and "i + int k = maxRetries - 1"
  shows "\<exists>e. outcome operation s k = Inl e \<and>
           retry_loop operation maxRetries d i s tr =
           (Inl (Thrown e), state_after operation s (Suc k), tr @ failed_rounds d k @ [Invoke])"
  using assms
proof (induction k arbitrary: s i tr)
  case 0
  then have "isl (outcome operation s 0)" by blast
  then obtain e s' where op: "operation s = (Inl e, s')"
    by (cases "operation s") (auto simp: outcome_def isl_def)
  with 0 show ?case
    by (simp add: failed_rounds_def outcome_def)
next
  case (Suc k)
  from Suc.prems(1) have "isl (outcome operation s 0)" by blast
  then obtain e s' where op: "operation s = (Inl e, s')"
    by (cases "operation s") (auto simp: outcome_def isl_def)
  have s': "s' = snd (operation s)" using op by simp
  have a: "\<forall>j\<le>k. isl (outcome operation s' j)"
    using Suc.prems(1) by (simp add: s' outcome_shift)
  have c: "(i + 1) + int k = maxRetries - 1" using Suc.prems(2) by simp
  obtain e' where e': "outcome operation s' k = Inl e'"
    and run: "retry_loop operation maxRetries d (i + 1) s' (tr @ [Invoke, Wait d]) =
          (Inl (Thrown e'), state_after operation s' (Suc k), (tr @ [Invoke, Wait d]) @ failed_rounds d k @ [Invoke])"
    using Suc.IH [OF a c] by blast
  have sh: "state_after operation s' (Suc k) = state_after operation s (Suc (Suc k))"
    unfolding s' by (rule state_after_shift)
  have i: "i < maxRetries" "i \<noteq> maxRetries - 1" using Suc.prems(2) by simp_all
  have "outcome operation s (Suc k) = Inl e'"
    using e' by (simp add: s' outcome_shift)
  moreover have "retry_loop operation maxRetries d i s tr =
      (Inl (Thrown e'), state_after operation s (Suc (Suc k)), tr @ failed_rounds d (Suc k) @ [Invoke])"
    using op i run sh by (simp add: failed_rounds_Suc del: state_after.simps(2))
  ultimately show ?case by blast
qed

lemma invocations_rounds: "invocations (failed_rounds d k @ [Invoke]) = Suc k"
  by (induction k) (simp_all add: invocations_def failed_rounds_def)

lemma delays_rounds: "delays (failed_rounds d k @ [Invoke]) = k"
  by (induction k) (simp_all add: delays_def failed_rounds_def)

lemma state_after_fails_then: "state_after (fails_then n v) 0 k = k"
  by (induction k) (simp_all add: fails_then_def)

lemma outcome_fails_then:
  "outcome (fails_then n v) 0 k = (if k < n then Inl (Suc k) else Inr v)"
  by (simp add: outcome_def state_after_fails_then) (simp add: fails_then_def)

text \<open>
  Claim C7. For every operation, every \<open>maxRetries \<ge> 1\<close> and every delay: if the
  first \<open>k < maxRetries\<close> invocations fail and the next one succeeds, the wrapper
  returns that result after exactly \<open>k + 1\<close> invocations, with one wait of the delay
  after each failure and no invocation after the success; if the first \<open>maxRetries\<close>
  invocations all fail, it propagates the failure of the last of them after exactly
  \<open>maxRetries\<close> invocations and \<open>maxRetries - 1\<close> waits.
\<close>

theorem retryOperation_retries:
  assumes "1 \<le> maxRetries"
  shows "(\<forall>k v. int k < maxRetries \<and> (\<forall>j<k. isl (outcome operation s j)) \<and>
              outcome operation s k = Inr v \<longrightarrow>
            retryOperation operation maxRetries d s =
              (Inr v, state_after operation s (Suc k), failed_rounds d k @ [Invoke])) \<and>
         ((\<forall>j. int j < maxRetries \<longrightarrow> isl (outcome operation s j)) \<longrightarrow>
            (\<exists>e. outcome operation s (nat maxRetries - 1) = Inl e \<and>
              retryOperation operation maxRetries d s =
                (Inl (Thrown e), state_after operation s (nat maxRetries),
                 failed_rounds d (nat maxRetries - 1) @ [Invoke])))"
proof (intro conjI allI impI)
  fix k v
  assume h: "int k < maxRetries \<and> (\<forall>j<k. isl (outcome operation s j)) \<and>
              outcome operation s k = Inr v"
  then have "0 + int k < maxRetries" by simp
  with h show "retryOperation operation maxRetries d s =
              (Inr v, state_after operation s (Suc k), failed_rounds d k @ [Invoke])"
    unfolding retryOperation_def
    using retry_loop_success [of k operation s v 0 maxRetries d "[]"] by simp
next
  assume h: "\<forall>j. int j < maxRetries \<longrightarrow> isl (outcome operation s j)"
  define k where "k = nat maxRetries - 1"
  have k: "0 + int k = maxRetries - 1" using assms by (simp add: k_def)
  have "\<forall>j\<le>k. isl (outcome operation s j)"
    using h k by simp
  from retry_loop_exhausted [OF this k, of d "[]"]
  have "\<exists>e. outcome operation s k = Inl e \<and>
          retryOperation operation maxRetries d s =
           (Inl (Thrown e), state_after operation s (Suc k), failed_rounds d k @ [Invoke])"
    by (simp add: retryOperation_def)
  moreover have "Suc k = nat maxRetries" using assms by (simp add: k_def)
  ultimately show "\<exists>e. outcome operation s (nat maxRetries - 1) = Inl e \<and>
              retryOperation operation maxRetries d s =
                (Inl (Thrown e), state_after operation s (nat maxRetries),
                 failed_rounds d (nat maxRetries - 1) @ [Invoke])"
    by (simp add: k_def)
qed


theorem retryOperation_retries_witness:
  "(1::int) \<le> 3 \<and>
   retryOperation (fails_then 2 ''ok'') 3 100 0 =
     (Inr ''ok'', 3, [Invoke, Wait 100, Invoke, Wait 100, Invoke]) \<and>
   delays [Invoke, Wait 100, Invoke, Wait 100, Invoke] = 2 \<and>
   invocations [Invoke, Wait 100, Invoke, Wait 100, Invoke] = 3 \<and>
   retryOperation (fails_then 3 ''ok'') 3 100 0 =
     (Inl (Thrown 3), 3, [Invoke, Wait 100, Invoke, Wait 100, Invoke])"
proof -
  have n: "(1::int) \<le> 3" by simp
  have a: "int 2 < 3 \<and> (\<forall>j<2. isl (outcome (fails_then 2 ''ok'') 0 j)) \<and>
             outcome (fails_then 2 ''ok'') 0 2 = Inr ''ok''"
    by (simp add: outcome_fails_then)
  have b: "\<forall>j. int j < 3 \<longrightarrow> isl (outcome (fails_then 3 ''ok'') 0 j)"
    by (simp add: outcome_fails_then)
  have r: "failed_rounds 100 2 = [Invoke, Wait 100, Invoke, Wait 100]"
    by (simp add: failed_rounds_def numeral_2_eq_2)
  from retryOperation_retries [OF n, of "fails_then 2 ''ok''" 0 100] a
  have "retryOperation (fails_then 2 ''ok'') 3 100 0 =
          (Inr ''ok'', state_after (fails_then 2 ''ok'') 0 (Suc 2), failed_rounds 100 2 @ [Invoke])"
    by blast
  then have one: "retryOperation (fails_then 2 ''ok'') 3 100 0 =
     (Inr ''ok'', 3, [Invoke, Wait 100, Invoke, Wait 100, Invoke])"
    by (simp add: state_after_fails_then r)
  from retryOperation_retries [OF n, of "fails_then 3 ''ok''" 0 100] b
  obtain e where "outcome (fails_then 3 ''ok'') 0 (nat 3 - 1) = Inl e"
    and "retryOperation (fails_then 3 ''ok'') 3 100 0 =
           (Inl (Thrown e), state_after (fails_then 3 ''ok'') 0 (nat 3),
            failed_rounds 100 (nat 3 - 1) @ [Invoke])"
    by blast
  then have two: "retryOperation (fails_then 3 ''ok'') 3 100 0 =
     (Inl (Thrown 3), 3, [Invoke, Wait 100, Invoke, Wait 100, Invoke])"
    by (simp add: state_after_fails_then outcome_fails_then r)
  show ?thesis
    using n one two by (simp add: delays_def invocations_def)
qed

text \<open>
  Claim C10. Called with \<open>maxRetries \<le> 0\<close> the wrapper never invokes the operation
  (the trace is empty and the operation's state is untouched) and throws the generic
  "Max retries exceeded" error, whatever the operation would have thrown.
\<close>

theorem retryOperation_nonpositive:
  "maxRetries \<le> 0 \<Longrightarrow>
     retryOperation operation maxRetries d s = (Inl MaxRetriesExceeded, s, [])"
  by (simp add: retryOperation_def)

theorem retryOperation_nonpositive_witness:
  "(0::int) \<le> 0 \<and>
   retryOperation (fails_then 5 ''ok'') 0 100 0 = (Inl MaxRetriesExceeded, 0, []) \<and>
   retryOperation (fails_then 0 ''ok'') (- 2) 100 0 = (Inl MaxRetriesExceeded, 0, [])"
  using retryOperation_nonpositive [of 0 "fails_then 5 ''ok''" 100 0]
    retryOperation_nonpositive [of "- 2" "fails_then 0 ''ok''" 100 0]
  by simp

end
